theory Spec2Isabelle
  imports Complex_Main "HOL-Library.AList"
begin

section \<open>Python text primitives used by the bridge\<close>

text \<open>
  Python strings are modelled as \<^typ>\<open>string\<close>; a character stands for a code point
  below 256. The classification functions below follow Python's \<open>str\<close> methods on that
  range: \<open>isspace\<close> holds for the ASCII white space, the separators 28 to 31, NEL (133)
  and the no-break space (160); \<open>isdigit\<close> holds for \<open>0\<close> to \<open>9\<close> and for the
  superscript digits 178, 179 and 185, which \<open>int()\<close> does not accept.
\<close>

datatype py_error = ValueError

definition py_isspace :: "char \<Rightarrow> bool" where
  "py_isspace c = ((of_char c :: nat) \<in> set [9, 10, 11, 12, 13, 28, 29, 30, 31, 32, 133, 160])"

definition is_ascii_digit :: "char \<Rightarrow> bool" where
  "is_ascii_digit c = (48 \<le> (of_char c :: nat) \<and> (of_char c :: nat) \<le> 57)"

definition py_isdigit_char :: "char \<Rightarrow> bool" where
  "py_isdigit_char c = (is_ascii_digit c \<or> (of_char c :: nat) \<in> set [178, 179, 185])"

definition py_isdigit :: "string \<Rightarrow> bool" where
  "py_isdigit s = (s \<noteq> [] \<and> list_all py_isdigit_char s)"

definition py_strip :: "string \<Rightarrow> string" where
  "py_strip s = rev (dropWhile py_isspace (rev (dropWhile py_isspace s)))"

definition py_strip_chars :: "string \<Rightarrow> string \<Rightarrow> string" where
  "py_strip_chars cs s =
     rev (dropWhile (\<lambda>c. c \<in> set cs) (rev (dropWhile (\<lambda>c. c \<in> set cs) s)))"

fun startswith :: "string \<Rightarrow> string \<Rightarrow> bool" where
  "startswith s [] = True"
| "startswith [] (p # ps) = False"
| "startswith (c # cs) (p # ps) = (c = p \<and> startswith cs ps)"

definition endswith :: "string \<Rightarrow> string \<Rightarrow> bool" where
  "endswith s suffix = startswith (rev s) (rev suffix)"

fun py_in :: "string \<Rightarrow> string \<Rightarrow> bool" where
  "py_in sub [] = (sub = [])"
| "py_in sub (c # cs) = (startswith (c # cs) sub \<or> py_in sub cs)"

text \<open>
  \<open>s.split(sep)\<close> for a non-empty separator: the fields between the non-overlapping
  occurrences of \<open>sep\<close>, scanned from the left. \<open>cur\<close> is the field being read.
\<close>

fun split_from :: "string \<Rightarrow> string \<Rightarrow> string \<Rightarrow> string list" where
  "split_from sep cur [] = [cur]"
| "split_from sep cur (c # cs) =
     (if sep \<noteq> [] \<and> startswith (c # cs) sep
      then cur # split_from sep [] (drop (length sep) (c # cs))
      else split_from sep (cur @ [c]) cs)"

definition py_split :: "string \<Rightarrow> string \<Rightarrow> string list" where
  "py_split sep s = split_from sep [] s"

definition digit_char :: "nat \<Rightarrow> char" where
  "digit_char d = ''0123456789'' ! d"

fun str_nat :: "nat \<Rightarrow> string" where
  "str_nat n = (if n < 10 then [digit_char n] else str_nat (n div 10) @ [digit_char (n mod 10)])"

declare str_nat.simps [simp del]

text \<open>
  \<open>str(i)\<close>, as the f-strings of the source apply it. Python refuses to print an
  integer of more than 4300 digits; the integers the bridge prints are device ids read by
  \<open>int\<close>, which are below that, levels, and the access code.
\<close>

definition str_int :: "int \<Rightarrow> string" where
  "str_int i = (if i < 0 then CHR ''-'' # str_nat (nat (- i)) else str_nat (nat i))"

definition digits_val :: "string \<Rightarrow> nat" where
  "digits_val s = foldl (\<lambda>a c. 10 * a + (of_char c - 48)) 0 s"

fun no_double_underscore :: "string \<Rightarrow> bool" where
  "no_double_underscore (a # b # cs) =
     (\<not> (a = CHR ''_'' \<and> b = CHR ''_'') \<and> no_double_underscore (b # cs))"
| "no_double_underscore cs = True"

definition int_body_ok :: "string \<Rightarrow> bool" where
  "int_body_ok body =
     (body \<noteq> [] \<and> is_ascii_digit (hd body) \<and> is_ascii_digit (last body)
      \<and> list_all (\<lambda>c. is_ascii_digit c \<or> c = CHR ''_'') body
      \<and> no_double_underscore body)"

text \<open>
  \<open>int(s)\<close> on a string. The white space \<open>int\<close> ignores around the literal is not
  that of \<open>str.strip\<close>: below code point 127 it is the ASCII white space only (9 to 13
  and 32), so the separators 28 to 31 make the text invalid; above, NEL (133) and the
  no-break space (160) count. One sign may lead, and single underscores may group the
  decimal digits. A literal of more than 4300 digits is refused. Everything \<open>int\<close>
  refuses raises \<open>ValueError\<close>, here \<open>None\<close>.
\<close>

definition int_isspace :: "char \<Rightarrow> bool" where
  "int_isspace c = ((of_char c :: nat) \<in> set [9, 10, 11, 12, 13, 32, 133, 160])"

definition int_strip :: "string \<Rightarrow> string" where
  "int_strip s = rev (dropWhile int_isspace (rev (dropWhile int_isspace s)))"

definition int_max_str_digits :: nat where
  "int_max_str_digits = 4300"

definition py_int :: "string \<Rightarrow> int option" where
  "py_int s =
     (let t = int_strip s;
          neg = (t \<noteq> [] \<and> hd t = CHR ''-'');
          body = (if t \<noteq> [] \<and> (hd t = CHR ''-'' \<or> hd t = CHR ''+'') then tl t else t);
          digits = filter (\<lambda>c. c \<noteq> CHR ''_'') body
      in if int_body_ok body \<and> length digits \<le> int_max_str_digits
         then Some ((if neg then - 1 else 1) * int (digits_val digits))
         else None)"

definition lower_char :: "char \<Rightarrow> char" where
  "lower_char c =
     (let n = (of_char c :: nat)
      in if (65 \<le> n \<and> n \<le> 90) \<or> (192 \<le> n \<and> n \<le> 222 \<and> n \<noteq> 215)
         then char_of (n + 32) else c)"

definition py_lower :: "string \<Rightarrow> string" where
  "py_lower s = map lower_char s"

text \<open>
  \<open>str.upper\<close>: the sharp s (223) becomes \<open>SS\<close>. The upper-case forms of the micro sign
  (181) and of y with diaeresis (255) lie beyond code point 255; both are kept as they
  are, which leaves every comparison with an ASCII literal as in Python.
\<close>

definition upper_char :: "char \<Rightarrow> string" where
  "upper_char c =
     (let n = (of_char c :: nat)
      in if n = 223 then ''SS''
         else if (97 \<le> n \<and> n \<le> 122) \<or> (224 \<le> n \<and> n \<le> 254 \<and> n \<noteq> 247)
         then [char_of (n - 32)] else [c])"

definition py_upper :: "string \<Rightarrow> string" where
  "py_upper s = concat (map upper_char s)"

section \<open>Configuration, environment and state\<close>

text \<open>
  The module constants read from the process environment are the fields of
  \<open>config\<close>; \<open>default_config\<close> holds the defaults of the source.
  \<open>BRIGHTNESS_SCALE\<close> is fixed in the source.
\<close>

record config =
  ZENSE_CODE :: int
  LEVEL_ON_WINDOW_SEC :: real
  DISCOVERY_PREFIX :: string
  BASE :: string
  DOMAIN :: string
  UID_PREFIX :: string

definition default_config :: config where
  "default_config =
     \<lparr>ZENSE_CODE = 16713, LEVEL_ON_WINDOW_SEC = 1, DISCOVERY_PREFIX = ''homeassistant'',
      BASE = ''homeassistant/zense_bridge'', DOMAIN = ''light'', UID_PREFIX = ''zensebridge_''\<rparr>"

definition BRIGHTNESS_SCALE :: int where
  "BRIGHTNESS_SCALE = 100"

definition AVAIL_ON :: string where
  "AVAIL_ON = ''online''"

definition AVAIL_OFF :: string where
  "AVAIL_OFF = ''offline''"

definition AVAIL_TOPIC :: "config \<Rightarrow> string" where
  "AVAIL_TOPIC cfg = BASE cfg @ ''/availability''"

text \<open>
  The controller behind the socket is the environment. Its behaviour is a pair of
  functions of the number of socket interactions made so far (\<open>tick\<close>): whether a
  connection attempt succeeds, and how a \<open>sendall\<close> followed by \<open>_recv\<close> ends: with the
  text read up to the end marker or the end of the stream, with an \<open>OSError\<close> (which
  \<open>BrokenPipeError\<close>, \<open>ConnectionResetError\<close> and the socket timeout are), or with
  another exception.
\<close>

datatype xresult = Reply string | OSError | OtherError

record network =
  connect_ok :: "nat \<Rightarrow> bool"
  exchange :: "nat \<Rightarrow> string \<Rightarrow> xresult"

datatype json = JStr string | JInt int | JBool bool

datatype payload = Text string | Json "(string \<times> json) list"

text \<open>
  Everything the bridge does to the outside is appended to \<open>trace\<close>:
  \<open>Request cmd\<close> marks a call of \<open>send_command\<close>, \<open>Connect\<close>, \<open>Xmit\<close> and \<open>SockClose\<close>
  are the socket operations, \<open>Publish\<close> is \<open>Bridge.pub\<close>, and \<open>Sleep_gap\<close> is the
  pacing \<open>time.sleep(CMD_GAP_SEC)\<close>.
\<close>

datatype event =
    Request string
  | Connect
  | Xmit string
  | SockClose
  | Publish string payload bool
  | Sleep_gap

record Pending =
  off :: bool
  on :: bool
  level :: "int option"

definition Pending_new :: Pending where
  "Pending_new = \<lparr>off = False, on = False, level = None\<rparr>"

text \<open>
  The state of a \<open>Bridge\<close> object. \<open>pending\<close> is a Python dict, whose items keep the order
  in which the keys were first stored. \<open>sock\<close> (whether \<open>self.sock\<close> is a socket) and
  \<open>logged_in\<close> are the fields of the \<open>ZenseClient\<close> in \<open>self.z\<close>.
\<close>

record Bridge =
  cmd_q :: "(string \<times> int \<times> int option) list"
  pending :: "(int \<times> Pending) list"
  last_level_pub :: "string \<rightharpoonup> int"
  last_level_ts :: "int \<rightharpoonup> real"
  known :: "int list"
  sock :: bool
  logged_in :: bool
  tick :: nat
  trace :: "event list"

definition Bridge_init :: Bridge where
  "Bridge_init =
     \<lparr>cmd_q = [], pending = [], last_level_pub = Map.empty, last_level_ts = Map.empty,
      known = [], sock = False, logged_in = False, tick = 0, trace = []\<rparr>"

definition emit :: "event \<Rightarrow> Bridge \<Rightarrow> Bridge" where
  "emit e b = b\<lparr>trace := trace b @ [e]\<rparr>"

section \<open>ZenseClient\<close>

definition close :: "Bridge \<Rightarrow> Bridge" where
  "close b = (if sock b then emit SockClose b else b)\<lparr>sock := False, logged_in := False\<rparr>"

definition connect :: "network \<Rightarrow> Bridge \<Rightarrow> bool \<times> Bridge" where
  "connect net b =
     (let b1 = close b;
          b2 = emit Connect (b1\<lparr>tick := Suc (tick b1)\<rparr>)
      in if connect_ok net (tick b1) then (True, b2\<lparr>sock := True\<rparr>) else (False, close b2))"

text \<open>
  \<open>_send_raw\<close>: \<open>sendall\<close> and \<open>_recv\<close> on the socket. Without a socket the attribute
  access on \<open>None\<close> raises \<open>AttributeError\<close>, which is not an \<open>OSError\<close>.
\<close>

definition send_raw :: "network \<Rightarrow> string \<Rightarrow> Bridge \<Rightarrow> xresult \<times> Bridge" where
  "send_raw net cmd b =
     (if \<not> sock b then (OtherError, b)
      else (exchange net (tick b) cmd, emit (Xmit cmd) (b\<lparr>tick := Suc (tick b)\<rparr>)))"

definition login :: "config \<Rightarrow> network \<Rightarrow> Bridge \<Rightarrow> bool \<times> Bridge" where
  "login cfg net b =
     (case connect net b of
        (False, b1) \<Rightarrow> (False, b1)
      | (True, b1) \<Rightarrow>
          (case send_raw net (''>>Login '' @ str_int (ZENSE_CODE cfg) @ ''<<'') b1 of
             (Reply resp, b2) \<Rightarrow>
               if py_in ''>>Login Ok<<'' resp then (True, b2\<lparr>logged_in := True\<rparr>)
               else (False, close b2)
           | (_, b2) \<Rightarrow> (False, close b2)))"

text \<open>
  The loop \<open>for attempt in range(retry + 1)\<close> of \<open>send_command\<close>; the first argument
  counts the attempts that are left.
\<close>

fun send_attempts :: "nat \<Rightarrow> config \<Rightarrow> network \<Rightarrow> string \<Rightarrow> Bridge \<Rightarrow> string \<times> Bridge" where
  "send_attempts 0 cfg net cmd b = ('''', b)"
| "send_attempts (Suc k) cfg net cmd b =
     (case (if \<not> logged_in b \<or> \<not> sock b then login cfg net b else (True, b)) of
        (False, b1) \<Rightarrow> ('''', b1)
      | (True, b1) \<Rightarrow>
          (case send_raw net cmd b1 of
             (Reply resp, b2) \<Rightarrow> (resp, b2)
           | (OSError, b2) \<Rightarrow> send_attempts k cfg net cmd (close b2)
           | (OtherError, b2) \<Rightarrow> ('''', close b2)))"

definition send_command_retry :: "config \<Rightarrow> network \<Rightarrow> string \<Rightarrow> int \<Rightarrow> Bridge \<Rightarrow> string \<times> Bridge" where
  "send_command_retry cfg net cmd retry b =
     send_attempts (nat (retry + 1)) cfg net cmd (emit (Request cmd) b)"

definition send_command :: "config \<Rightarrow> network \<Rightarrow> string \<Rightarrow> Bridge \<Rightarrow> string \<times> Bridge" where
  "send_command cfg net cmd b = send_command_retry cfg net cmd 1 b"

definition set_off :: "config \<Rightarrow> network \<Rightarrow> int \<Rightarrow> Bridge \<Rightarrow> string \<times> Bridge" where
  "set_off cfg net did b = send_command cfg net (''>>Set '' @ str_int did @ '' 0<<'') b"

definition set_on :: "config \<Rightarrow> network \<Rightarrow> int \<Rightarrow> Bridge \<Rightarrow> string \<times> Bridge" where
  "set_on cfg net did b =
     send_command cfg net (''>>Set '' @ str_int did @ '' '' @ str_int BRIGHTNESS_SCALE @ ''<<'') b"

definition fade :: "config \<Rightarrow> network \<Rightarrow> int \<Rightarrow> int \<Rightarrow> Bridge \<Rightarrow> string \<times> Bridge" where
  "fade cfg net did lvl b =
     (let lvl' = max 0 (min BRIGHTNESS_SCALE lvl)
      in send_command cfg net (''>>Fade '' @ str_int did @ '' '' @ str_int lvl' @ ''<<'') b)"

definition parse_level :: "string \<Rightarrow> int option" where
  "parse_level resp =
     (if py_in ''>>Get '' resp
      then py_int (py_strip (hd (py_split ''<<'' (py_split ''>>Get '' resp ! 1))))
      else None)"

definition get_level :: "config \<Rightarrow> network \<Rightarrow> int \<Rightarrow> Bridge \<Rightarrow> int option \<times> Bridge" where
  "get_level cfg net did b =
     (case send_command cfg net (''>>Get '' @ str_int did @ ''<<'') b of
        (resp, b1) \<Rightarrow> (parse_level resp, b1))"

text \<open>
  \<open>get_devices\<close>: a token passes the filter when \<open>isdigit\<close> holds for it; \<open>int\<close> then
  raises \<open>ValueError\<close> for a token with a superscript digit, and the exception leaves
  \<open>get_devices\<close>.
\<close>

fun ints_of :: "string list \<Rightarrow> py_error + int list" where
  "ints_of [] = Inr []"
| "ints_of (x # xs) =
     (case py_int x of
        None \<Rightarrow> Inl ValueError
      | Some i \<Rightarrow> (case ints_of xs of Inl e \<Rightarrow> Inl e | Inr js \<Rightarrow> Inr (i # js)))"

definition parse_devices :: "string \<Rightarrow> py_error + int list" where
  "parse_devices resp =
     (if py_in ''>>Get Devices '' resp
      then (let part = hd (py_split ''<<'' (py_split ''>>Get Devices '' resp ! 1));
                ids = map py_strip (py_split '','' part)
            in ints_of (filter py_isdigit ids))
      else Inr [])"

definition get_devices :: "config \<Rightarrow> network \<Rightarrow> Bridge \<Rightarrow> (py_error + int list) \<times> Bridge" where
  "get_devices cfg net b =
     (case send_command cfg net ''>>Get Devices<<'' b of (resp, b1) \<Rightarrow> (parse_devices resp, b1))"

definition parse_name :: "int \<Rightarrow> string \<Rightarrow> string" where
  "parse_name did resp =
     (let fallback = ''Device_'' @ str_int did
      in if py_in ''>>Get Name '' resp
         then (let nm = py_strip_chars [CHR 0x27]
                          (py_strip (hd (py_split ''<<'' (py_split ''>>Get Name '' resp ! 1))))
               in if nm \<noteq> [] \<and> py_lower nm \<noteq> ''timeout'' then nm else fallback)
         else fallback)"

definition get_name :: "config \<Rightarrow> network \<Rightarrow> int \<Rightarrow> Bridge \<Rightarrow> string \<times> Bridge" where
  "get_name cfg net did b =
     (case send_command cfg net (''>>Get Name '' @ str_int did @ ''<<'') b of
        (resp, b1) \<Rightarrow> (parse_name did resp, b1))"

section \<open>Topics and payload normalisation\<close>

definition uid :: "config \<Rightarrow> int \<Rightarrow> string" where
  "uid cfg did = UID_PREFIX cfg @ str_int did"

record topic_set =
  t_cmd :: string
  t_state :: string
  t_b_cmd :: string
  t_b_state :: string
  t_disc :: string

definition topics :: "config \<Rightarrow> string \<Rightarrow> topic_set" where
  "topics cfg u =
     \<lparr>t_cmd = BASE cfg @ ''/'' @ u @ ''/set'',
      t_state = BASE cfg @ ''/'' @ u @ ''/state'',
      t_b_cmd = BASE cfg @ ''/'' @ u @ ''/brightness/set'',
      t_b_state = BASE cfg @ ''/'' @ u @ ''/brightness/state'',
      t_disc = DISCOVERY_PREFIX cfg @ ''/'' @ DOMAIN cfg @ ''/'' @ u @ ''/config''\<rparr>"

text \<open>
  \<open>round\<close> of Python 3 on a float: to the nearest integer, a tie to the even one.
  Floats are idealised as reals.
\<close>

definition py_round :: "real \<Rightarrow> int" where
  "py_round x =
     (let f = \<lfloor>x\<rfloor>; d = x - of_int f
      in if d < 1 / 2 then f
         else if 1 / 2 < d then f + 1
         else if even f then f else f + 1)"

text \<open>
  \<open>_to_int\<close> on the decoded payload text. \<open>float_of\<close> stands for \<open>float(s)\<close>: the number
  a text denotes, \<open>None\<close> where \<open>float\<close> raises or gives an infinity or a NaN (on which
  \<open>round\<close> raises).
\<close>

definition to_int :: "(string \<Rightarrow> real option) \<Rightarrow> string \<Rightarrow> int option" where
  "to_int float_of v =
     (let s = py_strip v
      in if s = [] then None
         else (case float_of s of None \<Rightarrow> None | Some x \<Rightarrow> Some (py_round x)))"

definition scale_brightness :: "int \<Rightarrow> int" where
  "scale_brightness raw =
     (if raw < 0 then 0
      else if raw \<le> BRIGHTNESS_SCALE then raw
      else py_round ((of_int (min raw 255) / 255) * of_int BRIGHTNESS_SCALE))"

section \<open>Bridge\<close>

definition pub :: "string \<Rightarrow> payload \<Rightarrow> bool \<Rightarrow> Bridge \<Rightarrow> Bridge" where
  "pub topic pl retain b = emit (Publish topic pl retain) b"

definition pub_avail :: "config \<Rightarrow> bool \<Rightarrow> Bridge \<Rightarrow> Bridge" where
  "pub_avail cfg online b = pub (AVAIL_TOPIC cfg) (Text (if online then AVAIL_ON else AVAIL_OFF)) True b"

definition pub_state :: "config \<Rightarrow> int \<Rightarrow> int \<Rightarrow> Bridge \<Rightarrow> Bridge" where
  "pub_state cfg did lvl0 b =
     (let lvl = max 0 (min BRIGHTNESS_SCALE lvl0);
          u = uid cfg did
      in if last_level_pub b u = Some lvl then b
         else (let b1 = b\<lparr>last_level_pub := (last_level_pub b)(u \<mapsto> lvl)\<rparr>;
                   t = topics cfg u;
                   b2 = pub (t_state t) (Text (if 0 < lvl then ''ON'' else ''OFF'')) True b1
               in pub (t_b_state t) (Text (str_int lvl)) True b2))"

text \<open>The discovery payload is the dict handed to \<open>json.dumps\<close>.\<close>

definition discovery_payload :: "config \<Rightarrow> int \<Rightarrow> string \<Rightarrow> (string \<times> json) list" where
  "discovery_payload cfg did name_str =
     (let u = uid cfg did;
          t = topics cfg u
      in [(''name'', JStr (name_str @ '' (Zense)'')),
          (''unique_id'', JStr u),
          (''command_topic'', JStr (t_cmd t)),
          (''state_topic'', JStr (t_state t)),
          (''brightness_command_topic'', JStr (t_b_cmd t)),
          (''brightness_state_topic'', JStr (t_b_state t)),
          (''brightness_scale'', JInt BRIGHTNESS_SCALE),
          (''payload_on'', JStr ''ON''),
          (''payload_off'', JStr ''OFF''),
          (''availability_topic'', JStr (AVAIL_TOPIC cfg)),
          (''payload_available'', JStr AVAIL_ON),
          (''payload_not_available'', JStr AVAIL_OFF),
          (''optimistic'', JBool False),
          (''qos'', JInt 0)])"

definition pub_discovery :: "config \<Rightarrow> int \<Rightarrow> string \<Rightarrow> Bridge \<Rightarrow> Bridge" where
  "pub_discovery cfg did name_str b =
     pub (t_disc (topics cfg (uid cfg did))) (Json (discovery_payload cfg did name_str)) True b"

definition put :: "string \<times> int \<times> int option \<Rightarrow> Bridge \<Rightarrow> Bridge" where
  "put item b = b\<lparr>cmd_q := cmd_q b @ [item]\<rparr>"

text \<open>
  The device a topic addresses: the third field of the topic must start with
  \<open>UID_PREFIX\<close>, and \<open>int\<close> must accept what follows the prefix. \<open>None\<close> is an
  early return of \<open>on_message\<close>.
\<close>

definition topic_did :: "config \<Rightarrow> string \<Rightarrow> int option" where
  "topic_did cfg topic =
     (let parts = py_split ''/'' topic
      in if length parts < 4 then None
         else (let u = parts ! 2
               in if \<not> startswith u (UID_PREFIX cfg) then None
                  else py_int (drop (length (UID_PREFIX cfg)) u)))"

text \<open>
  \<open>on_message\<close> for a message with the given topic and decoded payload text;
  \<open>now\<close> is what \<open>time.time()\<close> returns during the call.
\<close>

definition on_message :: "config \<Rightarrow> (string \<Rightarrow> real option) \<Rightarrow> real \<Rightarrow> string \<Rightarrow> string \<Rightarrow> Bridge \<Rightarrow> Bridge" where
  "on_message cfg float_of now topic payload0 b =
     (let payload = py_strip payload0
      in if topic = ''homeassistant/status'' \<and> payload = ''online''
         then put (''discover'', 0, None) b
         else (case topic_did cfg topic of
                 None \<Rightarrow> b
               | Some did \<Rightarrow>
                   if endswith topic ''/brightness/set''
                   then (case to_int float_of payload of
                           None \<Rightarrow> b
                         | Some raw \<Rightarrow>
                             put (''level'', did, Some (scale_brightness raw))
                               (b\<lparr>last_level_ts := (last_level_ts b)(did \<mapsto> now)\<rparr>))
                   else if endswith topic ''/set''
                   then (let up = py_upper payload
                         in if up = ''OFF'' then put (''off'', did, None) b
                            else if up = ''ON''
                            then (let ts = (case last_level_ts b did of None \<Rightarrow> 0 | Some t \<Rightarrow> t)
                                  in if now - ts \<le> LEVEL_ON_WINDOW_SEC cfg then b
                                     else put (''on'', did, None) b)
                            else b)
                   else b))"

definition pending_get :: "Bridge \<Rightarrow> int \<Rightarrow> Pending" where
  "pending_get b did = (case map_of (pending b) did of None \<Rightarrow> Pending_new | Some p \<Rightarrow> p)"

definition pending_set :: "int \<Rightarrow> Pending \<Rightarrow> Bridge \<Rightarrow> Bridge" where
  "pending_set did p b = b\<lparr>pending := AList.update did p (pending b)\<rparr>"

definition accumulate :: "string \<Rightarrow> int \<Rightarrow> int option \<Rightarrow> Bridge \<Rightarrow> Bridge" where
  "accumulate kind did val b =
     (if kind = ''discover'' \<or> kind = ''refresh''
      then (let p = pending_get b 0
            in pending_set 0 (if kind = ''discover'' then p\<lparr>on := True\<rparr> else p\<lparr>off := True\<rparr>) b)
      else (let p = pending_get b did;
                p' = (if kind = ''off'' then p\<lparr>off := True, on := False, level := None\<rparr>
                      else if kind = ''on''
                      then (if \<not> off p \<and> level p = None then p\<lparr>on := True\<rparr> else p)
                      else if kind = ''level''
                      then (let lvl = max 0 (min BRIGHTNESS_SCALE (case val of None \<Rightarrow> 0 | Some v \<Rightarrow> v))
                            in if lvl = 0 then p\<lparr>off := True, on := False, level := None\<rparr>
                               else p\<lparr>level := Some lvl, on := False, off := False\<rparr>)
                      else p)
            in pending_set did p' b))"

definition accumulate_all :: "(string \<times> int \<times> int option) list \<Rightarrow> Bridge \<Rightarrow> Bridge" where
  "accumulate_all items b = foldl (\<lambda>s (kind, did, val). accumulate kind did val s) b items"

text \<open>\<open>_drain\<close> takes at most 200 queued items.\<close>

definition drain :: "Bridge \<Rightarrow> Bridge" where
  "drain b = accumulate_all (take 200 (cmd_q b)) (b\<lparr>cmd_q := drop 200 (cmd_q b)\<rparr>)"

section \<open>The flush\<close>

text \<open>The two fleet flags of a snapshot of the pending map.\<close>

definition do_discover :: "(int \<times> Pending) list \<Rightarrow> bool" where
  "do_discover items = list_ex (\<lambda>(did, p). did = 0 \<and> on p) items"

definition do_refresh :: "(int \<times> Pending) list \<Rightarrow> bool" where
  "do_refresh items = list_ex (\<lambda>(did, p). did = 0 \<and> off p) items"

text \<open>The body of the loop over the discovered ids in \<open>_execute\<close>.\<close>

definition discover_one :: "config \<Rightarrow> network \<Rightarrow> int \<Rightarrow> Bridge \<Rightarrow> Bridge" where
  "discover_one cfg net did b =
     (case get_name cfg net did b of (nm, b1) \<Rightarrow> emit Sleep_gap (pub_discovery cfg did nm b1))"

fun discover_loop :: "config \<Rightarrow> network \<Rightarrow> int list \<Rightarrow> Bridge \<Rightarrow> Bridge" where
  "discover_loop cfg net [] b = b"
| "discover_loop cfg net (did # ids) b = discover_loop cfg net ids (discover_one cfg net did b)"

text \<open>
  The block under \<open>if do_discover\<close>. An exception of \<open>get_devices\<close> is not caught in
  \<open>_execute\<close>: it ends the flush.
\<close>

definition discover_phase :: "config \<Rightarrow> network \<Rightarrow> bool \<Rightarrow> Bridge \<Rightarrow> py_error option \<times> Bridge" where
  "discover_phase cfg net flag b =
     (if flag
      then (case get_devices cfg net b of
              (Inl e, b1) \<Rightarrow> (Some e, b1)
            | (Inr ids, b1) \<Rightarrow>
                if ids \<noteq> [] then (None, discover_loop cfg net ids (b1\<lparr>known := ids\<rparr>))
                else (None, b1))
      else (None, b))"

definition refresh_one :: "config \<Rightarrow> network \<Rightarrow> int \<Rightarrow> Bridge \<Rightarrow> Bridge" where
  "refresh_one cfg net did b =
     (case get_level cfg net did b of
        (None, b1) \<Rightarrow> emit Sleep_gap b1
      | (Some lvl, b1) \<Rightarrow> emit Sleep_gap (pub_state cfg did lvl b1))"

fun refresh_loop :: "config \<Rightarrow> network \<Rightarrow> int list \<Rightarrow> Bridge \<Rightarrow> Bridge" where
  "refresh_loop cfg net [] b = b"
| "refresh_loop cfg net (did # ids) b = refresh_loop cfg net ids (refresh_one cfg net did b)"

definition refresh_phase :: "config \<Rightarrow> network \<Rightarrow> bool \<Rightarrow> Bridge \<Rightarrow> Bridge" where
  "refresh_phase cfg net flag b =
     (if flag \<and> known b \<noteq> [] then refresh_loop cfg net (known b) b else b)"

text \<open>The body of the loop \<open>for did, p in items\<close>.\<close>

definition device_one :: "config \<Rightarrow> network \<Rightarrow> int \<Rightarrow> Pending \<Rightarrow> Bridge \<Rightarrow> Bridge" where
  "device_one cfg net did p b =
     (if did = 0 then b
      else if off p
      then (case set_off cfg net did b of
              (resp, b1) \<Rightarrow> emit Sleep_gap (if resp \<noteq> [] then pub_state cfg did 0 b1 else b1))
      else if level p \<noteq> None
      then (case fade cfg net did (the (level p)) b of
              (resp, b1) \<Rightarrow>
                emit Sleep_gap (if resp \<noteq> [] then pub_state cfg did (the (level p)) b1 else b1))
      else if on p
      then (case set_on cfg net did b of
              (resp, b1) \<Rightarrow>
                emit Sleep_gap (if resp \<noteq> [] then pub_state cfg did BRIGHTNESS_SCALE b1 else b1))
      else b)"

fun device_loop :: "config \<Rightarrow> network \<Rightarrow> (int \<times> Pending) list \<Rightarrow> Bridge \<Rightarrow> Bridge" where
  "device_loop cfg net [] b = b"
| "device_loop cfg net ((did, p) # items) b = device_loop cfg net items (device_one cfg net did p b)"

text \<open>
  \<open>_execute\<close>: the result is the exception that ended the flush, if any, and the state
  it leaves.
\<close>

definition execute :: "config \<Rightarrow> network \<Rightarrow> Bridge \<Rightarrow> py_error option \<times> Bridge" where
  "execute cfg net b =
     (let items = pending b;
          b0 = b\<lparr>pending := []\<rparr>
      in case discover_phase cfg net (do_discover items) b0 of
           (Some e, b1) \<Rightarrow> (Some e, b1)
         | (None, b1) \<Rightarrow>
             (None, device_loop cfg net items (refresh_phase cfg net (do_refresh items) b1)))"

section \<open>The merge table of the specification\<close>

text \<open>
  The precedence table of the specification, written from its words: \<open>Off\<close> sets
  \<open>off\<close> and clears \<open>on\<close> and \<open>level\<close>; \<open>On\<close> sets \<open>on\<close> only if \<open>off\<close> is false and no
  level is pending; \<open>Level v\<close>, with \<open>v\<close> clamped to 0..100, is \<open>Off\<close> for 0 and
  otherwise sets the level and clears the two flags.
\<close>

datatype intent = Off | On | Level int

definition table_merge :: "intent \<Rightarrow> Pending \<Rightarrow> Pending" where
  "table_merge i p =
     (case i of
        Off \<Rightarrow> \<lparr>off = True, on = False, level = None\<rparr>
      | On \<Rightarrow> (if \<not> off p \<and> level p = None then p\<lparr>on := True\<rparr> else p)
      | Level v \<Rightarrow>
          (let c = max 0 (min 100 v)
           in if c = 0 then \<lparr>off = True, on = False, level = None\<rparr>
              else \<lparr>off = False, on = False, level = Some c\<rparr>))"

definition enqueue :: "int \<Rightarrow> intent \<Rightarrow> string \<times> int \<times> int option" where
  "enqueue did i =
     (case i of
        Off \<Rightarrow> (''off'', did, None)
      | On \<Rightarrow> (''on'', did, None)
      | Level v \<Rightarrow> (''level'', did, Some v))"

text \<open>
  The last intent of a sequence that is not \<open>On\<close>, and the state the table gives for
  a sequence applied from the left to a fresh \<open>Pending\<close>.
\<close>

definition last_directive :: "intent list \<Rightarrow> intent option" where
  "last_directive xs =
     (let ys = filter (\<lambda>i. i \<noteq> On) xs in if ys = [] then None else Some (last ys))"

definition merged :: "intent list \<Rightarrow> Pending" where
  "merged xs = foldl (\<lambda>p i. table_merge i p) Pending_new xs"

text \<open>A controller whose reply to a name query ends before the end marker.\<close>

definition net_cut_name :: network where
  "net_cut_name =
     \<lparr>connect_ok = (\<lambda>n. True),
      exchange = (\<lambda>n cmd. if n = 1 then Reply ''>>Login Ok<<'' else Reply ''>>Get Name Kitchen'')\<rparr>"

section \<open>Reading the trace\<close>

fun is_request :: "event \<Rightarrow> bool" where
  "is_request (Request c) = True"
| "is_request e = False"

fun is_publish :: "event \<Rightarrow> bool" where
  "is_publish (Publish t pl r) = True"
| "is_publish e = False"

text \<open>
  The controller operation \<open>_execute\<close> issues for a pending entry, in the priority of its
  three branches, and the level it publishes after a confirmed response.
\<close>

definition device_op :: "config \<Rightarrow> network \<Rightarrow> int \<Rightarrow> Pending \<Rightarrow> Bridge \<Rightarrow> string \<times> Bridge" where
  "device_op cfg net did p b =
     (if off p then set_off cfg net did b
      else if level p \<noteq> None then fade cfg net did (the (level p)) b
      else set_on cfg net did b)"

definition device_level :: "Pending \<Rightarrow> int" where
  "device_level p =
     (if off p then 0 else if level p \<noteq> None then the (level p) else BRIGHTNESS_SCALE)"

definition login_cmd :: "config \<Rightarrow> string" where
  "login_cmd cfg = ''>>Login '' @ str_int (ZENSE_CODE cfg) @ ''<<''"

definition login_ok :: "xresult \<Rightarrow> bool" where
  "login_ok x = (case x of Reply resp \<Rightarrow> py_in ''>>Login Ok<<'' resp | _ \<Rightarrow> False)"

text \<open>A controller that accepts every login and resets the connection on every command.\<close>

definition net_reset :: network where
  "net_reset =
     \<lparr>connect_ok = (\<lambda>n. True),
      exchange = (\<lambda>n cmd. if startswith cmd ''>>Login '' then Reply ''>>Login Ok<<'' else OSError)\<rparr>"

text \<open>Two states that differ at most in the socket fields and the trace.\<close>

definition same_data :: "Bridge \<Rightarrow> Bridge \<Rightarrow> bool" where
  "same_data b b' =
     (cmd_q b' = cmd_q b \<and> pending b' = pending b \<and> last_level_pub b' = last_level_pub b
      \<and> last_level_ts b' = last_level_ts b \<and> known b' = known b)"

text \<open>The command text of the operation \<open>device_op\<close> sends.\<close>

definition device_cmd :: "int \<Rightarrow> Pending \<Rightarrow> string" where
  "device_cmd did p =
     (if off p then ''>>Set '' @ str_int did @ '' 0<<''
      else if level p \<noteq> None
      then ''>>Fade '' @ str_int did @ '' ''
             @ str_int (max 0 (min BRIGHTNESS_SCALE (the (level p)))) @ ''<<''
      else ''>>Set '' @ str_int did @ '' '' @ str_int BRIGHTNESS_SCALE @ ''<<'')"

definition has_directive :: "Pending \<Rightarrow> bool" where
  "has_directive p = (off p \<or> level p \<noteq> None \<or> on p)"

text \<open>The command texts of the two queries, and the events the claims count.\<close>

definition name_cmd :: "int \<Rightarrow> string" where
  "name_cmd did = ''>>Get Name '' @ str_int did @ ''<<''"

definition level_cmd :: "int \<Rightarrow> string" where
  "level_cmd did = ''>>Get '' @ str_int did @ ''<<''"

fun is_name_query :: "event \<Rightarrow> bool" where
  "is_name_query (Request c) = startswith c ''>>Get Name ''"
| "is_name_query e = False"

fun is_discovery_pub :: "event \<Rightarrow> bool" where
  "is_discovery_pub (Publish t (Json pl) r) = True"
| "is_discovery_pub e = False"

fun publish_topic :: "event \<Rightarrow> string" where
  "publish_topic (Publish t pl r) = t"
| "publish_topic e = []"

text \<open>
  The calls of a trace: the commands handed to \<open>send_command\<close>, the discovery
  publications and the pacing sleeps, without the socket traffic and the state
  publications.
\<close>

fun is_call :: "event \<Rightarrow> bool" where
  "is_call (Request c) = True"
| "is_call (Publish t (Json pl) r) = True"
| "is_call Sleep_gap = True"
| "is_call e = False"

definition calls :: "event list \<Rightarrow> event list" where
  "calls tr = filter is_call tr"

text \<open>The names the discovery loop obtains for the ids, in order.\<close>

fun discovered_names :: "config \<Rightarrow> network \<Rightarrow> int list \<Rightarrow> Bridge \<Rightarrow> string list" where
  "discovered_names cfg net [] b = []"
| "discovered_names cfg net (did # ids) b =
     fst (get_name cfg net did b) # discovered_names cfg net ids (discover_one cfg net did b)"

definition discovery_calls :: "config \<Rightarrow> int \<Rightarrow> string \<Rightarrow> event list" where
  "discovery_calls cfg did nm =
     [Request (name_cmd did),
      Publish (t_disc (topics cfg (uid cfg did))) (Json (discovery_payload cfg did nm)) True,
      Sleep_gap]"

definition refresh_calls :: "int \<Rightarrow> event list" where
  "refresh_calls did = [Request (level_cmd did), Sleep_gap]"

definition device_calls :: "int \<times> Pending \<Rightarrow> event list" where
  "device_calls item =
     (case item of (did, p) \<Rightarrow>
        if did \<noteq> 0 \<and> has_directive p then [Request (device_cmd did p), Sleep_gap] else [])"

text \<open>A controller with the devices 3 and 5, and one whose port is closed.\<close>

definition net_two :: network where
  "net_two =
     \<lparr>connect_ok = (\<lambda>n. True),
      exchange = (\<lambda>n cmd. if startswith cmd ''>>Login '' then Reply ''>>Login Ok<<''
                          else if cmd = ''>>Get Devices<<'' then Reply ''>>Get Devices 3, 5<<''
                          else if startswith cmd ''>>Get Name '' then Reply ''>>Get Name Hall<<''
                          else Reply ''>>Ok<<'')\<rparr>"

definition net_down :: network where
  "net_down = \<lparr>connect_ok = (\<lambda>n. False), exchange = (\<lambda>n cmd. OSError)\<rparr>"

text \<open>
  A controller that resets the connection on everything it is sent, the login request
  included, and one that resets the connection on the first command and closes the stream
  without a reply on the next.
\<close>

definition net_reset_all :: network where
  "net_reset_all = \<lparr>connect_ok = (\<lambda>n. True), exchange = (\<lambda>n cmd. OSError)\<rparr>"

definition net_eof :: network where
  "net_eof =
     \<lparr>connect_ok = (\<lambda>n. True),
      exchange = (\<lambda>n cmd. if startswith cmd ''>>Login '' then Reply ''>>Login Ok<<''
                          else if n < 3 then OSError else Reply [])\<rparr>"

section \<open>Published levels\<close>

text \<open>
  The level publications of a device in a trace are the payloads published on its
  brightness state topic. \<open>level_view\<close> is what the deduplication depends on: the map of
  last published levels and the level publications of every device.
\<close>

fun is_level_pub :: "config \<Rightarrow> int \<Rightarrow> event \<Rightarrow> bool" where
  "is_level_pub cfg did (Publish t pl r) = (t = t_b_state (topics cfg (uid cfg did)))"
| "is_level_pub cfg did e = False"

fun publish_payload :: "event \<Rightarrow> payload" where
  "publish_payload (Publish t pl r) = pl"
| "publish_payload e = Text []"

definition level_pubs :: "config \<Rightarrow> int \<Rightarrow> event list \<Rightarrow> payload list" where
  "level_pubs cfg did tr = map publish_payload (filter (is_level_pub cfg did) tr)"

definition level_view :: "config \<Rightarrow> Bridge \<Rightarrow> (string \<rightharpoonup> int) \<times> (int \<Rightarrow> payload list)" where
  "level_view cfg b = (last_level_pub b, \<lambda>did. level_pubs cfg did (trace b))"

text \<open>
  The invariant of the deduplication: the level publications of a device are the texts of
  a sequence of levels without two equal neighbours, and the map holds the last of them.
\<close>

definition dedup_inv :: "config \<Rightarrow> Bridge \<Rightarrow> bool" where
  "dedup_inv cfg b =
     (\<forall>did. \<exists>ls. level_pubs cfg did (trace b) = map (\<lambda>l. Text (str_int l)) ls
                 \<and> distinct_adj ls
                 \<and> (ls \<noteq> [] \<longrightarrow> last_level_pub b (uid cfg did) = Some (last ls)))"

text \<open>
  The states of a bridge: what the callbacks, the worker and the publisher make of the
  initial state, for every message, network behaviour and argument.
\<close>

inductive reachable :: "config \<Rightarrow> Bridge \<Rightarrow> bool" for cfg :: config where
  initial: "reachable cfg Bridge_init"
| queued: "reachable cfg b \<Longrightarrow> reachable cfg (put item b)"
| message: "reachable cfg b \<Longrightarrow> reachable cfg (on_message cfg float_of now topic payload0 b)"
| merged: "reachable cfg b \<Longrightarrow> reachable cfg (accumulate kind did val b)"
| drained: "reachable cfg b \<Longrightarrow> reachable cfg (drain b)"
| flushed: "reachable cfg b \<Longrightarrow> reachable cfg (snd (execute cfg net b))"
| published: "reachable cfg b \<Longrightarrow> reachable cfg (pub_state cfg did lvl b)"
| announced: "reachable cfg b \<Longrightarrow> reachable cfg (pub_discovery cfg did name_str b)"
| available: "reachable cfg b \<Longrightarrow> reachable cfg (pub_avail cfg online b)"

text \<open>
  A controller whose device list carries, after the id 3, a token that is the superscript
  two (code point 178).
\<close>

definition net_superscript :: network where
  "net_superscript =
     \<lparr>connect_ok = (\<lambda>n. True),
      exchange = (\<lambda>n cmd. if startswith cmd ''>>Login '' then Reply ''>>Login Ok<<''
                          else if cmd = ''>>Get Devices<<''
                          then Reply (''>>Get Devices 3,'' @ [CHR 0xB2] @ ''<<'')
                          else Reply ''>>Ok<<'')\<rparr>"

section \<open>Facts about the text primitives\<close>

lemma split_from_nonempty: "split_from sep cur s \<noteq> []"
  by (induction sep cur s rule: split_from.induct) auto

lemma startswith_append: "startswith (p @ s) p"
  by (induction p) auto

lemma startswith_hd: "startswith (c # cs) sep \<Longrightarrow> sep \<noteq> [] \<Longrightarrow> hd sep = c"
  by (cases sep) auto

lemma py_in_append: "py_in sub (pre @ sub @ rest)"
proof (induction pre)
  case Nil
  then show ?case by (cases "sub @ rest") (auto simp: startswith_append dest: arg_cong [where f = "\<lambda>s. startswith s sub"])
next
  case (Cons a pre)
  then show ?case by simp
qed

lemma py_in_split_length:
  "py_in sep s \<Longrightarrow> sep \<noteq> [] \<Longrightarrow> 2 \<le> length (split_from sep cur s)"
proof (induction sep cur s rule: split_from.induct)
  case (1 sep cur)
  then show ?case by simp
next
  case (2 sep cur c cs)
  show ?case
  proof (cases "startswith (c # cs) sep")
    case True
    with 2 split_from_nonempty [of sep "[]" "drop (length sep) (c # cs)"] show ?thesis
      by (cases "split_from sep [] (drop (length sep) (c # cs))") auto
  next
    case False
    with 2 show ?thesis by simp
  qed
qed

lemma split_from_skip:
  "sep \<noteq> [] \<Longrightarrow> hd sep \<notin> set xs \<Longrightarrow> split_from sep cur (xs @ ys) = split_from sep (cur @ xs) ys"
proof (induction xs arbitrary: cur)
  case Nil
  then show ?case by simp
next
  case (Cons a xs)
  then have "\<not> startswith (a # xs @ ys) sep" using startswith_hd [of a "xs @ ys" sep] by auto
  with Cons show ?case by simp
qed

lemma split_from_sep:
  "sep \<noteq> [] \<Longrightarrow> split_from sep cur (sep @ ys) = cur # split_from sep [] ys"
proof -
  assume ne: "sep \<noteq> []"
  then obtain c cs where e: "sep @ ys = c # cs" by (cases sep) auto
  have "startswith (c # cs) sep" using startswith_append [of sep ys] e by simp
  then have "split_from sep cur (c # cs) = cur # split_from sep [] (drop (length sep) (c # cs))"
    using ne by simp
  then show ?thesis by (simp flip: e)
qed

lemma split_from_hd_prefix: "\<exists>r. hd (split_from sep cur s) = cur @ r"
  by (induction sep cur s rule: split_from.induct) auto

lemma str_nat_small: "n < 10 \<Longrightarrow> str_nat n = [digit_char n]"
  by (simp add: str_nat.simps)

lemma str_nat_big: "10 \<le> n \<Longrightarrow> str_nat n = str_nat (n div 10) @ [digit_char (n mod 10)]"
  by (subst str_nat.simps) simp

lemmas str_int_eval = str_int_def str_nat_small str_nat_big digit_char_def

lemma digit_char_in: "d < 10 \<Longrightarrow> digit_char d \<in> set ''0123456789''"
  unfolding digit_char_def by (rule nth_mem) simp

lemma str_nat_chars: "set (str_nat n) \<subseteq> set ''0123456789''"
proof (induction n rule: str_nat.induct)
  case (1 n)
  show ?case
  proof (cases "n < 10")
    case True
    then show ?thesis using digit_char_in [of n] by (simp only: str_nat_small list.set) blast
  next
    case False
    then have a: "set (str_nat (n div 10)) \<subseteq> set ''0123456789''" using 1 by simp
    have b: "digit_char (n mod 10) \<in> set ''0123456789''" by (rule digit_char_in) simp
    have "str_nat n = str_nat (n div 10) @ [digit_char (n mod 10)]"
      using False by (intro str_nat_big) simp
    then have c: "set (str_nat n) = insert (digit_char (n mod 10)) (set (str_nat (n div 10)))"
      by (simp only: set_append list.set) blast
    show ?thesis unfolding c insert_subset by (rule conjI [OF b a])
  qed
qed

lemma str_nat_nonempty: "str_nat n \<noteq> []"
proof (cases "n < 10")
  case True
  then show ?thesis by (simp only: str_nat_small) simp
next
  case False
  then have "str_nat n = str_nat (n div 10) @ [digit_char (n mod 10)]"
    by (intro str_nat_big) simp
  then show ?thesis by simp
qed

lemma str_int_hd: "\<exists>c cs. str_int i = c # cs \<and> c \<in> insert CHR ''-'' (set ''0123456789'')"
proof (cases "i < 0")
  case True
  then show ?thesis by (simp only: str_int_def if_True) blast
next
  case False
  obtain c cs where e: "str_nat (nat i) = c # cs"
    using str_nat_nonempty [of "nat i"] by (cases "str_nat (nat i)") blast+
  then have "c \<in> set (str_nat (nat i))" by simp
  then have "c \<in> set ''0123456789''" using str_nat_chars [of "nat i"] by blast
  with e False show ?thesis by (simp only: str_int_def if_False) blast
qed

lemma str_int_not_N: "\<not> startswith (str_int i @ s) (CHR ''N'' # t)"
proof -
  obtain c cs where e: "str_int i = c # cs" "c \<in> insert CHR ''-'' (set ''0123456789'')"
    using str_int_hd by blast
  have "CHR ''N'' \<notin> insert CHR ''-'' (set ''0123456789'')" by simp
  with e(2) have "c \<noteq> CHR ''N''" by blast
  with e(1) show ?thesis by simp
qed

lemma str_int_literals:
  "str_int 0 = ''0''" "str_int 3 = ''3''" "str_int 5 = ''5''" "str_int 7 = ''7''"
  "str_int 8 = ''8''"
  "str_int 40 = ''40''" "str_int 50 = ''50''" "str_int 100 = ''100''" "str_int 16713 = ''16713''"
  by (simp_all add: str_int_eval)

lemma startswith_decomp: "startswith s p \<Longrightarrow> \<exists>t. s = p @ t"
  by (induction s p rule: startswith.induct) auto

lemma field_upto_marker:
  assumes "CHR ''<'' \<notin> set body" and "r = [] \<or> startswith r ''<<''"
  shows "hd (py_split ''<<'' (body @ r)) = body"
proof (cases "r = []")
  case True
  then show ?thesis
    unfolding py_split_def using split_from_skip [of "''<<''" body "[]" "[]"] assms(1) by simp
next
  case False
  with assms(2) obtain t where t: "r = ''<<'' @ t" using startswith_decomp by blast
  show ?thesis
    unfolding py_split_def t
    using split_from_skip [of "''<<''" body "[]" "''<<'' @ t"] assms(1)
      split_from_sep [of "''<<''" body t]
    by simp
qed

lemma name_field:
  assumes "CHR ''>'' \<notin> set pre" "CHR ''<'' \<notin> set body" "CHR ''>'' \<notin> set body"
    and "rest = [] \<or> startswith rest ''<<''"
  shows "hd (py_split ''<<'' (py_split ''>>Get Name '' (pre @ ''>>Get Name '' @ body @ rest) ! 1))
           = body"
proof -
  let ?P = "''>>Get Name ''"
  have "py_split ?P (pre @ ?P @ body @ rest) = split_from ?P pre (?P @ body @ rest)"
    unfolding py_split_def using split_from_skip [of ?P pre "[]" "?P @ body @ rest"] assms(1) by simp
  also have "\<dots> = pre # split_from ?P [] (body @ rest)"
    by (rule split_from_sep) simp
  finally have one: "py_split ?P (pre @ ?P @ body @ rest) ! 1 = hd (split_from ?P body rest)"
    using split_from_skip [of ?P body "[]" rest] assms(3) split_from_nonempty [of ?P body rest]
    by (simp add: hd_conv_nth)
  have "\<exists>r. hd (split_from ?P body rest) = body @ r \<and> (r = [] \<or> startswith r ''<<'')"
  proof (cases "rest = []")
    case True
    then show ?thesis by simp
  next
    case False
    with assms(4) obtain t where t: "rest = ''<<'' @ t" using startswith_decomp by blast
    obtain r where "hd (split_from ?P (body @ ''<<'') t) = (body @ ''<<'') @ r"
      using split_from_hd_prefix by blast
    then show ?thesis unfolding t using split_from_skip [of ?P "''<<''" body t] by simp
  qed
  then obtain r where r: "hd (split_from ?P body rest) = body @ r" "r = [] \<or> startswith r ''<<''"
    by blast
  from field_upto_marker [OF assms(2) r(2)] one r(1) show ?thesis by simp
qed

section \<open>Merging intents\<close>

lemma pending_get_set: "pending_get (pending_set did p b) did = p"
  by (simp add: pending_get_def pending_set_def AList.update_conv')

lemma pending_get_set_other: "d \<noteq> did \<Longrightarrow> pending_get (pending_set did p b) d = pending_get b d"
  by (simp add: pending_get_def pending_set_def AList.update_conv')

lemma accumulate_table:
  "pending_get (case enqueue did i of (kind, d, val) \<Rightarrow> accumulate kind d val b) did
     = table_merge i (pending_get b did)"
  by (cases i)
    (simp_all add: enqueue_def accumulate_def table_merge_def Let_def pending_get_set
      BRIGHTNESS_SCALE_def)

lemma accumulate_all_table:
  "pending_get (accumulate_all (map (enqueue did) xs) b) did
     = foldl (\<lambda>p i. table_merge i p) (pending_get b did) xs"
proof (induction xs arbitrary: b)
  case Nil
  then show ?case by (simp add: accumulate_all_def)
next
  case (Cons i xs)
  have "accumulate_all (map (enqueue did) (i # xs)) b
          = accumulate_all (map (enqueue did) xs)
              (case enqueue did i of (kind, d, val) \<Rightarrow> accumulate kind d val b)"
    by (simp add: accumulate_all_def split: prod.splits)
  then show ?case using Cons.IH accumulate_table by simp
qed

lemma last_directive_snoc:
  "last_directive (xs @ [i]) = (if i = On then last_directive xs else Some i)"
  by (simp add: last_directive_def Let_def)

lemma merged_last_writer:
  "merged xs = (case last_directive xs of
                  None \<Rightarrow> \<lparr>off = False, on = (xs \<noteq> []), level = None\<rparr>
                | Some i \<Rightarrow> table_merge i Pending_new)"
proof (induction xs rule: rev_induct)
  case Nil
  then show ?case by (simp add: merged_def last_directive_def Pending_new_def)
next
  case (snoc i xs)
  have step: "merged (xs @ [j]) = table_merge j (merged xs)" for j by (simp add: merged_def)
  show ?case
  proof (cases i)
    case Off
    then show ?thesis by (simp add: step last_directive_snoc table_merge_def)
  next
    case On
    show ?thesis
    proof (cases "last_directive xs")
      case None
      with On snoc show ?thesis by (simp add: step last_directive_snoc table_merge_def)
    next
      case (Some j)
      with On snoc show ?thesis
        by (cases j) (simp_all add: step last_directive_snoc table_merge_def Let_def)
    qed
  next
    case (Level v)
    then show ?thesis by (simp add: step last_directive_snoc table_merge_def Let_def)
  qed
qed

text \<open>
  C1, as the code has it. For a sequence of Off, On and Level intents of one device,
  merged by \<open>_accumulate\<close> into a pending map that starts empty, the entry of the device
  is what the precedence table gives when it is applied to the intents in arrival order.
  That state is fixed by the last Off or Level intent of the sequence: without one it is
  \<open>on\<close> alone (for a non-empty sequence), and otherwise it is what the table gives for
  that one intent on a fresh entry. The On intents and everything before the last
  Off or Level intent have no influence.
\<close>

theorem accumulate_last_writer:
  assumes "pending b = []"
  shows "pending_get (accumulate_all (map (enqueue did) xs) b) did = merged xs
       \<and> merged xs = (case last_directive xs of
                        None \<Rightarrow> \<lparr>off = False, on = (xs \<noteq> []), level = None\<rparr>
                      | Some i \<Rightarrow> table_merge i Pending_new)"
proof -
  have "pending_get b did = Pending_new" using assms by (simp add: pending_get_def)
  then show ?thesis
    using accumulate_all_table [of did xs b] merged_last_writer [of xs] by (simp add: merged_def)
qed

theorem accumulate_last_writer_witness:
  "pending Bridge_init = []
   \<and> pending_get
        (accumulate_all (map (enqueue 7) [On, Level 30, Off, On, Level 250, On]) Bridge_init) 7
       = \<lparr>off = False, on = False, level = Some 100\<rparr>"
proof -
  have h: "pending Bridge_init = []" by (simp add: Bridge_init_def)
  have l: "last_directive [On, Level 30, Off, On, Level 250, On] = Some (Level 250)"
    by (simp add: last_directive_def)
  show ?thesis
    using accumulate_last_writer [OF h, of 7 "[On, Level 30, Off, On, Level 250, On]"] h l
    by (simp add: table_merge_def)
qed

text \<open>
  C1 as stated fails: an Off and a Level intent of device 7 leave a different entry in
  each of their two arrival orders.
\<close>

theorem accumulate_order_counterexample:
  "pending (accumulate_all [(''off'', 7, None), (''level'', 7, Some 50)] Bridge_init)
     = [(7, \<lparr>off = False, on = False, level = Some 50\<rparr>)]
   \<and> pending (accumulate_all [(''level'', 7, Some 50), (''off'', 7, None)] Bridge_init)
     = [(7, \<lparr>off = True, on = False, level = None\<rparr>)]"
  by (simp add: accumulate_all_def accumulate_def pending_get_def pending_set_def Bridge_init_def
      Pending_new_def BRIGHTNESS_SCALE_def)

text \<open>
  C7. A Level intent whose clamped value is 0 changes the state exactly as an Off intent
  for the same device does, from every state; the entry of the device is then
  \<open>off\<close> set, \<open>on\<close> clear and no level.
\<close>

theorem level_zero_is_off:
  assumes "max 0 (min BRIGHTNESS_SCALE (case val of None \<Rightarrow> 0 | Some v \<Rightarrow> v)) = 0"
  shows "accumulate ''level'' did val b = accumulate ''off'' did val' b
       \<and> pending_get (accumulate ''level'' did val b) did
           = \<lparr>off = True, on = False, level = None\<rparr>"
  using assms by (simp add: accumulate_def Let_def pending_get_set)

theorem level_zero_is_off_witness:
  "max 0 (min BRIGHTNESS_SCALE (case Some (- 5) of None \<Rightarrow> 0 | Some v \<Rightarrow> v)) = 0
   \<and> accumulate ''level'' 7 (Some (- 5)) Bridge_init = accumulate ''off'' 7 None Bridge_init
   \<and> pending (accumulate ''level'' 7 (Some (- 5)) Bridge_init)
       = [(7, \<lparr>off = True, on = False, level = None\<rparr>)]"
proof -
  have h: "max 0 (min BRIGHTNESS_SCALE (case Some (- 5) of None \<Rightarrow> 0 | Some v \<Rightarrow> v)) = 0"
    by (simp add: BRIGHTNESS_SCALE_def)
  have "pending (accumulate ''off'' 7 None Bridge_init)
          = [(7, \<lparr>off = True, on = False, level = None\<rparr>)]"
    by (simp add: accumulate_def pending_get_def pending_set_def Bridge_init_def Pending_new_def)
  then show ?thesis
    using level_zero_is_off [OF h, of 7 Bridge_init None] h by simp
qed

section \<open>Brightness normalisation\<close>

lemma py_round_no_tie:
  assumes "x - of_int \<lfloor>x\<rfloor> \<noteq> 1 / 2"
  shows "py_round x = \<lfloor>x + 1 / 2\<rfloor>"
proof -
  let ?f = "\<lfloor>x\<rfloor>"
  have b: "of_int ?f \<le> x" "x < of_int ?f + 1" by linarith+
  show ?thesis
  proof (cases "x - of_int ?f < 1 / 2")
    case True
    have "\<lfloor>x + 1 / 2\<rfloor> = ?f"
    proof (rule floor_unique)
      show "of_int ?f \<le> x + 1 / 2" using b by linarith
      show "x + 1 / 2 < of_int ?f + 1" using True by linarith
    qed
    with True show ?thesis by (simp add: py_round_def Let_def)
  next
    case False
    with assms have gt: "1 / 2 < x - of_int ?f" by simp
    have "\<lfloor>x + 1 / 2\<rfloor> = ?f + 1"
    proof (rule floor_unique)
      show "of_int (?f + 1) \<le> x + 1 / 2" using gt by simp
      show "x + 1 / 2 < of_int (?f + 1) + 1" using b by (simp, linarith)
    qed
    with gt show ?thesis by (simp add: py_round_def Let_def)
  qed
qed

text \<open>No brightness is rescaled to a tie: 200 m is even and 255 (2 k + 1) is odd.\<close>

lemma scale_no_tie:
  fixes m :: int
  shows "real_of_int m * 100 / 255 - of_int \<lfloor>real_of_int m * 100 / 255\<rfloor> \<noteq> 1 / 2"
proof
  let ?k = "\<lfloor>real_of_int m * 100 / 255\<rfloor>"
  assume "real_of_int m * 100 / 255 - of_int ?k = 1 / 2"
  then have "real_of_int m * 200 = real_of_int (255 * (2 * ?k + 1))" by (simp add: field_simps)
  then have "real_of_int (m * 200) = real_of_int (255 * (2 * ?k + 1))" by simp
  then have "m * 200 = 255 * (2 * ?k + 1)" by (simp only: of_int_eq_iff)
  then have "even (255 * (2 * ?k + 1))" by (metis even_mult_iff even_numeral)
  then show False by simp
qed

lemma floor_half_up:
  fixes m :: int
  shows "\<lfloor>real_of_int m * 100 / 255 + 1 / 2\<rfloor> = (200 * m + 255) div 510"
proof -
  have "real_of_int m * 100 / 255 + 1 / 2 = real_of_int (200 * m + 255) / real_of_int 510"
    by (simp add: field_simps)
  then show ?thesis by (simp only: floor_divide_of_int_eq)
qed

lemma scale_above:
  assumes "100 < raw"
  shows "scale_brightness raw = round (real_of_int (min raw 255) * 100 / 255)"
    and "scale_brightness raw = (200 * min raw 255 + 255) div 510"
  using assms py_round_no_tie [OF scale_no_tie [of "min raw 255"]] floor_half_up [of "min raw 255"]
  by (simp_all add: scale_brightness_def BRIGHTNESS_SCALE_def round_def)

text \<open>
  C6. \<open>scale_brightness\<close> maps 255 to 100 and 128 to 50; an input from 0 to 100 is
  returned unchanged; a negative input gives 0; an input above 100 is clamped to 255 and
  rescaled to the nearest integer of its hundredfold over 255, which is never a tie.
\<close>

theorem scale_brightness_cases:
  "scale_brightness 255 = 100
   \<and> scale_brightness 128 = 50
   \<and> (0 \<le> raw \<and> raw \<le> 100 \<longrightarrow> scale_brightness raw = raw)
   \<and> (raw < 0 \<longrightarrow> scale_brightness raw = 0)
   \<and> (100 < raw \<longrightarrow>
        scale_brightness raw = round (real_of_int (min raw 255) * 100 / 255)
        \<and> scale_brightness raw = (200 * min raw 255 + 255) div 510)"
proof -
  have "scale_brightness 255 = 100" "scale_brightness 128 = 50"
    using scale_above(2) [of 255] scale_above(2) [of 128] by simp_all
  moreover have "0 \<le> raw \<and> raw \<le> 100 \<longrightarrow> scale_brightness raw = raw"
    by (simp add: scale_brightness_def BRIGHTNESS_SCALE_def)
  moreover have "raw < 0 \<longrightarrow> scale_brightness raw = 0"
    by (simp add: scale_brightness_def)
  ultimately show ?thesis using scale_above [of raw] by blast
qed

theorem scale_brightness_cases_witness:
  "scale_brightness 40 = 40 \<and> scale_brightness (- 3) = 0 \<and> scale_brightness 200 = 78
   \<and> scale_brightness 1000 = 100"
  using scale_brightness_cases [of 40] scale_brightness_cases [of "- 3"]
    scale_brightness_cases [of 200] scale_brightness_cases [of 1000]
  by simp

section \<open>Parsing the name reply\<close>

lemma get_name_fst:
  "fst (get_name cfg net did b)
     = parse_name did (fst (send_command cfg net (''>>Get Name '' @ str_int did @ ''<<'') b))"
  by (simp add: get_name_def split: prod.splits)

text \<open>
  C9, as the code has it. \<open>get_name\<close> takes the text that follows the first
  \<open>>>Get Name\<close> prefix of the response, up to the end marker or, when no end marker
  follows, up to the end of the response, and strips white space and single quotes from
  it. It returns that name when it is not empty and not \<open>timeout\<close> in any letter case,
  and \<open>Device_\<close> followed by the id otherwise, as it does for a response without the
  prefix. The end marker is not required.
\<close>

theorem get_name_result:
  assumes "send_command cfg net (''>>Get Name '' @ str_int did @ ''<<'') b = (resp, b')"
  shows "(\<not> py_in ''>>Get Name '' resp \<longrightarrow> fst (get_name cfg net did b) = ''Device_'' @ str_int did)
       \<and> (resp = pre @ ''>>Get Name '' @ body @ rest
            \<and> CHR ''>'' \<notin> set pre \<and> CHR ''<'' \<notin> set body \<and> CHR ''>'' \<notin> set body
            \<and> (rest = [] \<or> startswith rest ''<<'')
          \<longrightarrow> fst (get_name cfg net did b)
                = (let nm = py_strip_chars [CHR 0x27] (py_strip body)
                   in if nm \<noteq> [] \<and> py_lower nm \<noteq> ''timeout'' then nm
                      else ''Device_'' @ str_int did))"
proof (intro conjI impI)
  assume "\<not> py_in ''>>Get Name '' resp"
  with assms show "fst (get_name cfg net did b) = ''Device_'' @ str_int did"
    by (simp add: get_name_def parse_name_def)
next
  assume a: "resp = pre @ ''>>Get Name '' @ body @ rest
            \<and> CHR ''>'' \<notin> set pre \<and> CHR ''<'' \<notin> set body \<and> CHR ''>'' \<notin> set body
            \<and> (rest = [] \<or> startswith rest ''<<'')"
  then have f: "hd (py_split ''<<'' (py_split ''>>Get Name '' resp ! 1)) = body"
    using name_field [of pre body rest] by simp
  have "py_in ''>>Get Name '' resp" using a py_in_append [of "''>>Get Name ''" pre "body @ rest"] by simp
  with assms f show "fst (get_name cfg net did b)
                = (let nm = py_strip_chars [CHR 0x27] (py_strip body)
                   in if nm \<noteq> [] \<and> py_lower nm \<noteq> ''timeout'' then nm
                      else ''Device_'' @ str_int did)"
    by (simp add: get_name_def parse_name_def Let_def)
qed

theorem get_name_result_witness:
  "fst (get_name default_config net_cut_name 3 Bridge_init) = ''Kitchen''"
proof -
  have sc: "send_command default_config net_cut_name (''>>Get Name '' @ str_int 3 @ ''<<'') Bridge_init
              = (''>>Get Name Kitchen'',
                 snd (send_command default_config net_cut_name
                       (''>>Get Name '' @ str_int 3 @ ''<<'') Bridge_init))"
    by (simp add: send_command_def send_command_retry_def login_def connect_def close_def
        send_raw_def emit_def Bridge_init_def net_cut_name_def default_config_def
        numeral_2_eq_2 str_int_literals)
  have st: "py_strip_chars [CHR 0x27] (py_strip ''Kitchen'') = ''Kitchen''"
    by code_simp
  have lw: "py_lower ''Kitchen'' = ''kitchen''"
    by code_simp
  show ?thesis
    using get_name_result [OF sc, of "[]" "''Kitchen''" "[]"] st lw by simp
qed

text \<open>
  C9 as stated fails: a reply that ends before the end marker still yields the name it
  carries, not the fallback name.
\<close>

theorem get_name_cut_counterexample:
  "fst (send_command default_config net_cut_name (''>>Get Name '' @ str_int 3 @ ''<<'') Bridge_init)
     = ''>>Get Name Kitchen''
   \<and> \<not> py_in ''<<'' ''>>Get Name Kitchen''
   \<and> fst (get_name default_config net_cut_name 3 Bridge_init) \<noteq> ''Device_'' @ str_int 3"
proof -
  have sc: "fst (send_command default_config net_cut_name (''>>Get Name '' @ str_int 3 @ ''<<'')
                  Bridge_init) = ''>>Get Name Kitchen''"
    by (simp add: send_command_def send_command_retry_def login_def connect_def close_def
        send_raw_def emit_def Bridge_init_def net_cut_name_def default_config_def
        numeral_2_eq_2 str_int_literals)
  have pn: "parse_name 3 ''>>Get Name Kitchen'' = ''Kitchen''"
    by code_simp
  have "fst (get_name default_config net_cut_name 3 Bridge_init) = ''Kitchen''"
    using sc pn by (simp add: get_name_fst)
  then show ?thesis using sc by (simp add: str_int_literals)
qed

section \<open>Incoming messages\<close>

lemma status_topic_did: "topic_did cfg ''homeassistant/status'' = None"
  by (simp add: topic_did_def py_split_def)

lemma on_message_on:
  assumes "topic_did cfg topic = Some did" "endswith topic ''/set''"
    "\<not> endswith topic ''/brightness/set''" "py_upper (py_strip payload) = ''ON''"
  shows "on_message cfg fl now topic payload b
           = (if now - (case last_level_ts b did of None \<Rightarrow> 0 | Some t \<Rightarrow> t) \<le> LEVEL_ON_WINDOW_SEC cfg
              then b else put (''on'', did, None) b)"
proof -
  have "topic \<noteq> ''homeassistant/status''" using assms(1) status_topic_did [of cfg] by auto
  with assms show ?thesis by (simp add: on_message_def Let_def)
qed

lemma on_message_level:
  assumes "topic_did cfg topic = Some did" "endswith topic ''/brightness/set''"
    "to_int fl (py_strip payload) = Some raw"
  shows "on_message cfg fl now topic payload b
           = put (''level'', did, Some (scale_brightness raw))
               (b\<lparr>last_level_ts := (last_level_ts b)(did \<mapsto> now)\<rparr>)"
proof -
  have "topic \<noteq> ''homeassistant/status''" using assms(1) status_topic_did [of cfg] by auto
  with assms show ?thesis by (simp add: on_message_def Let_def)
qed

text \<open>
  C8. A message on the command topic of a device whose payload reads \<open>ON\<close> in any letter
  case is dropped when the time since the last recorded Level intent of that device is at
  most \<open>LEVEL_ON_WINDOW_SEC\<close>, and is queued as an \<open>on\<close> intent otherwise (a device
  with no recorded Level intent counts from time 0). A brightness message records its
  arrival time for the device and queues the Level intent, so an \<open>ON\<close> that follows it
  at \<open>t1\<close> is dropped exactly when \<open>t1 - t0\<close> is within the window.
\<close>

theorem on_after_level:
  assumes "topic_did cfg topicB = Some did" and "endswith topicB ''/brightness/set''"
    and "to_int fl (py_strip payloadB) = Some raw"
    and "topic_did cfg topicS = Some did" and "endswith topicS ''/set''"
    and "\<not> endswith topicS ''/brightness/set''" and "py_upper (py_strip payloadS) = ''ON''"
  shows "on_message cfg fl now topicS payloadS b
           = (if now - (case last_level_ts b did of None \<Rightarrow> 0 | Some t \<Rightarrow> t) \<le> LEVEL_ON_WINDOW_SEC cfg
              then b else put (''on'', did, None) b)
       \<and> (let b1 = on_message cfg fl t0 topicB payloadB b
          in last_level_ts b1 did = Some t0
             \<and> cmd_q b1 = cmd_q b @ [(''level'', did, Some (scale_brightness raw))]
             \<and> on_message cfg fl t1 topicS payloadS b1
                 = (if t1 - t0 \<le> LEVEL_ON_WINDOW_SEC cfg then b1 else put (''on'', did, None) b1))"
  using on_message_on [OF assms(4-7)] on_message_level [OF assms(1-3)]
  by (simp add: Let_def put_def)

lemma scale_128: "scale_brightness 128 = 50"
  by (simp add: scale_brightness_def BRIGHTNESS_SCALE_def py_round_def Let_def)

theorem on_after_level_witness:
  "(let fl = (\<lambda>s. if s = ''128'' then Some 128 else None);
        b1 = on_message default_config fl 10
               ''homeassistant/zense_bridge/zensebridge_5/brightness/set'' ''128'' Bridge_init
    in cmd_q b1 = [(''level'', 5, Some 50)]
       \<and> cmd_q (on_message default_config fl (21 / 2)
                   ''homeassistant/zense_bridge/zensebridge_5/set'' '' on '' b1)
           = [(''level'', 5, Some 50)]
       \<and> cmd_q (on_message default_config fl 12
                   ''homeassistant/zense_bridge/zensebridge_5/set'' '' on '' b1)
           = [(''level'', 5, Some 50), (''on'', 5, None)])"
proof -
  let ?fl = "\<lambda>s. if s = ''128'' then Some (128 :: real) else None"
  let ?tb = "''homeassistant/zense_bridge/zensebridge_5/brightness/set''"
  let ?ts = "''homeassistant/zense_bridge/zensebridge_5/set''"
  have h1: "topic_did default_config ?tb = Some 5" by code_simp
  have h2: "endswith ?tb ''/brightness/set''" by (simp add: endswith_def)
  have h3: "to_int ?fl (py_strip ''128'') = Some 128"
    by (simp add: to_int_def py_strip_def py_isspace_def py_round_def)
  have h4: "topic_did default_config ?ts = Some 5" by code_simp
  have h5: "endswith ?ts ''/set''" by (simp add: endswith_def)
  have h6: "\<not> endswith ?ts ''/brightness/set''" by (simp add: endswith_def)
  have h7: "py_upper (py_strip '' on '') = ''ON''" by code_simp
  note t = on_after_level [OF h1 h2 h3 h4 h5 h6 h7]
  have w: "LEVEL_ON_WINDOW_SEC default_config = 1" by (simp add: default_config_def)
  show ?thesis
    using t [where b = Bridge_init and ?t0.0 = 10 and ?t1.0 = "21 / 2"]
      t [where b = Bridge_init and ?t0.0 = 10 and ?t1.0 = 12]
    by (simp add: Let_def put_def w scale_128 Bridge_init_def)
qed

text \<open>
  A topic whose id field carries a separator of the range 28 to 31 addresses no device:
  \<open>int\<close> refuses the text, and \<open>on_message\<close> returns without queueing anything.
\<close>

lemma topic_did_separator:
  "topic_did default_config (''homeassistant/zense_bridge/zensebridge_'' @ [CHR 0x1C] @ ''5/set'')
     = None"
  by code_simp

lemma on_message_separator:
  "on_message default_config fl now
     (''homeassistant/zense_bridge/zensebridge_'' @ [CHR 0x1C] @ ''5/set'') ''ON'' b = b"
proof -
  have "''homeassistant/zense_bridge/zensebridge_'' @ [CHR 0x1C] @ ''5/set''
          \<noteq> ''homeassistant/status''"
    by simp
  then show ?thesis
    using topic_did_separator by (simp add: on_message_def Let_def)
qed

section \<open>The session client\<close>

lemma login_True:
  assumes "login cfg net b = (True, b1)"
  shows "sock b1 \<and> logged_in b1"
  using assms
  by (auto simp: login_def connect_def send_raw_def close_def emit_def Let_def
      split: if_splits xresult.splits prod.splits bool.splits)

lemma retry_after_reset:
  assumes s: "sock b1" and l: "logged_in b1" and err: "exchange net (tick b1) cmd = OSError"
  shows "send_attempts 2 cfg net cmd b1
     = (let n = Suc (tick b1);
            ok = (connect_ok net n \<and> login_ok (exchange net (Suc n) (login_cmd cfg)));
            x = exchange net (Suc (Suc n)) cmd;
            b' = b1\<lparr>tick := (if \<not> connect_ok net n then Suc n else if ok then Suc (Suc (Suc n)) else Suc (Suc n)),
                    sock := (ok \<and> x \<noteq> OSError \<and> x \<noteq> OtherError),
                    logged_in := (ok \<and> x \<noteq> OSError \<and> x \<noteq> OtherError),
                    trace := trace b1 @ [Xmit cmd, SockClose, Connect]
                      @ (if connect_ok net n
                         then Xmit (login_cmd cfg)
                              # (if ok then Xmit cmd # (if x \<noteq> OSError \<and> x \<noteq> OtherError then [] else [SockClose])
                                 else [SockClose])
                         else [])\<rparr>
        in (if ok then (case x of Reply r \<Rightarrow> r | _ \<Rightarrow> '''') else '''', b'))"
  using assms
  by (auto simp: numeral_2_eq_2 login_def connect_def send_raw_def close_def emit_def Let_def
      login_ok_def login_cmd_def
      split: xresult.splits)

lemma same_data_refl: "same_data b b"
  by (simp add: same_data_def)

lemma same_data_trans: "same_data a b \<Longrightarrow> same_data b c \<Longrightarrow> same_data a c"
  by (simp add: same_data_def)

lemma close_same: "same_data b (close b)"
  by (simp add: same_data_def close_def emit_def)

lemma close_filter:
  "\<not> P SockClose \<Longrightarrow> filter P (trace (close b)) = filter P (trace b)"
  by (simp add: close_def emit_def)

lemma connect_same: "same_data b (snd (connect net b))"
  by (simp add: same_data_def connect_def close_def emit_def Let_def)

lemma connect_filter:
  "\<not> P SockClose \<Longrightarrow> \<not> P Connect \<Longrightarrow> filter P (trace (snd (connect net b))) = filter P (trace b)"
  by (simp add: connect_def close_def emit_def Let_def)

lemma send_raw_same: "same_data b (snd (send_raw net cmd b))"
  by (simp add: same_data_def send_raw_def emit_def)

lemma send_raw_filter:
  "\<not> P (Xmit cmd) \<Longrightarrow> filter P (trace (snd (send_raw net cmd b))) = filter P (trace b)"
  by (simp add: send_raw_def emit_def)

lemma login_same: "same_data b (snd (login cfg net b))"
  by (simp add: same_data_def login_def connect_def send_raw_def close_def emit_def Let_def
      split: xresult.splits)

lemma login_filter:
  assumes "\<not> P SockClose" "\<not> P Connect" "\<And>c. \<not> P (Xmit c)"
  shows "filter P (trace (snd (login cfg net b))) = filter P (trace b)"
  using assms
  by (simp add: login_def connect_def send_raw_def close_def emit_def Let_def
      split: xresult.splits)

lemma send_attempts_same: "same_data b (snd (send_attempts k cfg net cmd b))"
proof (induction k arbitrary: b)
  case 0
  then show ?case by (simp add: same_data_refl)
next
  case (Suc k)
  show ?case
  proof (cases "\<not> logged_in b \<or> \<not> sock b")
    case True
    obtain ok b1 where lg: "login cfg net b = (ok, b1)" by (cases "login cfg net b")
    then have s1: "same_data b b1" using login_same [of b cfg net] by simp
    show ?thesis
    proof (cases ok)
      case False
      with True lg s1 show ?thesis by simp
    next
      case ok: True
      obtain x b2 where sr: "send_raw net cmd b1 = (x, b2)" by (cases "send_raw net cmd b1")
      then have s2: "same_data b b2"
        using send_raw_same [of b1 net cmd] s1 same_data_trans by fastforce
      have s3: "same_data b (close b2)" using s2 close_same same_data_trans by blast
      show ?thesis
        using True lg ok sr s2 s3 Suc.IH [of "close b2"] same_data_trans [OF s3]
        by (cases x) (simp_all del: One_nat_def)
    qed
  next
    case False
    obtain x b2 where sr: "send_raw net cmd b = (x, b2)" by (cases "send_raw net cmd b")
    then have s2: "same_data b b2" using send_raw_same [of b net cmd] by simp
    have s3: "same_data b (close b2)" using s2 close_same same_data_trans by blast
    show ?thesis
      using False sr s2 s3 Suc.IH [of "close b2"] same_data_trans [OF s3]
      by (cases x) simp_all
  qed
qed

lemma send_attempts_filter:
  assumes "\<not> P SockClose" "\<not> P Connect" "\<And>c. \<not> P (Xmit c)"
  shows "filter P (trace (snd (send_attempts k cfg net cmd b))) = filter P (trace b)"
proof (induction k arbitrary: b)
  case 0
  then show ?case by simp
next
  case (Suc k)
  have cl: "filter P (trace (close c)) = filter P (trace c)" for c
    using close_filter assms(1) by simp
  have sr: "filter P (trace (snd (send_raw net cmd c))) = filter P (trace c)" for c
    using send_raw_filter assms(3) by simp
  have lg: "filter P (trace (snd (login cfg net c))) = filter P (trace c)" for c
    using login_filter assms by simp
  show ?case
  proof (cases "\<not> logged_in b \<or> \<not> sock b")
    case True
    obtain ok b1 where l: "login cfg net b = (ok, b1)" by (cases "login cfg net b")
    obtain x b2 where s: "send_raw net cmd b1 = (x, b2)" by (cases "send_raw net cmd b1")
    have "filter P (trace b1) = filter P (trace b)" using lg [of b] l by simp
    moreover have "filter P (trace b2) = filter P (trace b1)" using sr [of b1] s by simp
    ultimately show ?thesis
      using True l s Suc.IH [of "close b2"] cl [of b2]
      by (cases ok; cases x) simp_all
  next
    case False
    obtain x b2 where s: "send_raw net cmd b = (x, b2)" by (cases "send_raw net cmd b")
    have "filter P (trace b2) = filter P (trace b)" using sr [of b] s by simp
    then show ?thesis
      using False s Suc.IH [of "close b2"] cl [of b2]
      by (cases x) simp_all
  qed
qed

lemma send_command_same: "same_data b (snd (send_command cfg net cmd b))"
proof -
  have "same_data b (emit (Request cmd) b)" by (simp add: same_data_def emit_def)
  then show ?thesis
    using send_attempts_same same_data_trans
    by (fastforce simp: send_command_def send_command_retry_def)
qed

lemma send_command_filter:
  assumes "\<not> P SockClose" "\<not> P Connect" "\<And>c. \<not> P (Xmit c)"
  shows "filter P (trace (snd (send_command cfg net cmd b)))
           = filter P (trace b) @ filter P [Request cmd]"
  using send_attempts_filter [OF assms]
  by (simp add: send_command_def send_command_retry_def emit_def)

lemma device_op_send:
  "device_op cfg net did p b = send_command cfg net (device_cmd did p) b"
  by (simp add: device_op_def device_cmd_def set_off_def set_on_def fade_def Let_def)

lemma device_one_unified:
  assumes "did \<noteq> 0" "has_directive p"
  shows "device_one cfg net did p b
           = (case device_op cfg net did p b of
                (resp, b1) \<Rightarrow>
                  emit Sleep_gap (if resp \<noteq> [] then pub_state cfg did (device_level p) b1 else b1))"
  using assms
  by (cases "off p"; cases "level p")
    (simp_all add: device_one_def device_op_def device_level_def has_directive_def
      split: prod.splits)

lemma device_one_idle:
  "did = 0 \<or> \<not> has_directive p \<Longrightarrow> device_one cfg net did p b = b"
  by (auto simp: device_one_def has_directive_def)

lemma device_one_unconfirmed:
  assumes "did \<noteq> 0" "has_directive p" "fst (send_command cfg net (device_cmd did p) b) = []"
  shows "filter is_publish (trace (device_one cfg net did p b)) = filter is_publish (trace b)"
proof -
  obtain resp b1 where sc: "send_command cfg net (device_cmd did p) b = (resp, b1)"
    by (cases "send_command cfg net (device_cmd did p) b")
  have "filter is_publish (trace b1) = filter is_publish (trace b)"
    using send_command_filter [of is_publish cfg net "device_cmd did p" b] sc by simp
  with assms sc show ?thesis
    by (simp add: device_one_unified device_op_send emit_def)
qed

lemma login_send_error:
  assumes "\<not> (logged_in s \<and> sock s)" and "connect_ok net (tick s)"
    and "exchange net (Suc (tick s)) (login_cmd cfg) = OSError"
  shows "fst (send_command cfg net cmd s) = []"
    and "trace (snd (send_command cfg net cmd s))
           = trace s @ [Request cmd] @ (if sock s then [SockClose] else [])
             @ [Connect, Xmit (login_cmd cfg), SockClose]"
  using assms
  by (auto simp: send_command_def send_command_retry_def numeral_2_eq_2 login_def connect_def
      close_def send_raw_def emit_def Let_def login_cmd_def)

text \<open>
  C2, as the code has it. Let the transmission of the command in the first attempt of
  \<open>send_command\<close> end with an \<open>OSError\<close> (\<open>b1\<close> is the state in which it is sent: the
  state on entry of a session that is up, or the one a successful login leaves). Then the
  socket is closed and the second attempt makes one connection attempt; if it succeeds the
  login request is sent once, and if the login is accepted the same command is sent once
  more. Nothing else touches the socket. The result is the reply read after that second
  transmission, and the empty string when the connection, the login or the second
  transmission fails, in which case the session is left closed. Whenever the result is
  empty, also when the stream ends without a reply, the flush publishes nothing for the
  operation. An \<open>OSError\<close> while the login request is being sent is not retried:
  \<open>send_command\<close> closes the socket and returns the empty string.
\<close>

theorem send_command_retry_once:
  assumes "(if \<not> logged_in b \<or> \<not> sock b then login cfg net (emit (Request cmd) b)
            else (True, emit (Request cmd) b)) = (True, b1)"
    and "exchange net (tick b1) cmd = OSError"
  shows "(let n = Suc (tick b1);
              ok = (connect_ok net n \<and> login_ok (exchange net (Suc n) (login_cmd cfg)));
              x = exchange net (Suc (Suc n)) cmd;
              answered = (ok \<and> x \<noteq> OSError \<and> x \<noteq> OtherError)
          in trace (snd (send_command cfg net cmd b))
               = trace b1 @ [Xmit cmd, SockClose, Connect]
                 @ (if connect_ok net n
                    then Xmit (login_cmd cfg)
                         # (if ok then Xmit cmd # (if answered then [] else [SockClose])
                            else [SockClose])
                    else [])
             \<and> fst (send_command cfg net cmd b)
                 = (if ok then (case x of Reply r \<Rightarrow> r | _ \<Rightarrow> '''') else '''')
             \<and> (\<not> answered \<longrightarrow> fst (send_command cfg net cmd b) = [])
             \<and> sock (snd (send_command cfg net cmd b)) = answered
             \<and> logged_in (snd (send_command cfg net cmd b)) = answered
             \<and> (fst (send_command cfg net cmd b) = [] \<and> cmd = device_cmd did p \<and> did \<noteq> 0
                  \<and> has_directive p
                  \<longrightarrow> filter is_publish (trace (device_one cfg net did p b))
                      = filter is_publish (trace b))
             \<and> (\<not> (logged_in s \<and> sock s) \<and> connect_ok net2 (tick s)
                  \<and> exchange net2 (Suc (tick s)) (login_cmd cfg) = OSError
                  \<longrightarrow> fst (send_command cfg net2 cmd2 s) = []
                      \<and> trace (snd (send_command cfg net2 cmd2 s))
                          = trace s @ [Request cmd2] @ (if sock s then [SockClose] else [])
                            @ [Connect, Xmit (login_cmd cfg), SockClose]))"
proof -
  have up: "sock b1 \<and> logged_in b1"
  proof (cases "\<not> logged_in b \<or> \<not> sock b")
    case True
    with assms(1) show ?thesis using login_True by simp
  next
    case False
    with assms(1) show ?thesis by (auto simp: emit_def)
  qed
  have sa: "send_command cfg net cmd b = send_attempts 2 cfg net cmd b1"
    using assms(1) up
    by (auto simp: send_command_def send_command_retry_def numeral_2_eq_2 emit_def
        split: if_splits)
  note r = retry_after_reset [of b1 net cmd cfg, OF conjunct1 [OF up] conjunct2 [OF up] assms(2)]
  let ?n = "Suc (tick b1)"
  let ?ok = "connect_ok net ?n \<and> login_ok (exchange net (Suc ?n) (login_cmd cfg))"
  let ?x = "exchange net (Suc (Suc ?n)) cmd"
  let ?answered = "?ok \<and> ?x \<noteq> OSError \<and> ?x \<noteq> OtherError"
  have t: "trace (snd (send_command cfg net cmd b))
             = trace b1 @ [Xmit cmd, SockClose, Connect]
               @ (if connect_ok net ?n
                  then Xmit (login_cmd cfg)
                       # (if ?ok then Xmit cmd # (if ?answered then [] else [SockClose])
                          else [SockClose])
                  else [])"
    unfolding sa r by (simp add: Let_def)
  have f: "fst (send_command cfg net cmd b)
             = (if ?ok then (case ?x of Reply r \<Rightarrow> r | _ \<Rightarrow> '''') else '''')"
    unfolding sa r by (simp add: Let_def)
  have e: "\<not> ?answered \<longrightarrow> fst (send_command cfg net cmd b) = []"
    unfolding f by (auto split: xresult.splits)
  have s: "sock (snd (send_command cfg net cmd b)) = ?answered"
    "logged_in (snd (send_command cfg net cmd b)) = ?answered"
    unfolding sa r by (simp_all add: Let_def)
  have p: "fst (send_command cfg net cmd b) = [] \<and> cmd = device_cmd did p \<and> did \<noteq> 0
             \<and> has_directive p
           \<longrightarrow> filter is_publish (trace (device_one cfg net did p b))
               = filter is_publish (trace b)"
    using device_one_unconfirmed by blast
  have q: "\<not> (logged_in s \<and> sock s) \<and> connect_ok net2 (tick s)
             \<and> exchange net2 (Suc (tick s)) (login_cmd cfg) = OSError
           \<longrightarrow> fst (send_command cfg net2 cmd2 s) = []
               \<and> trace (snd (send_command cfg net2 cmd2 s))
                   = trace s @ [Request cmd2] @ (if sock s then [SockClose] else [])
                     @ [Connect, Xmit (login_cmd cfg), SockClose]"
    using login_send_error by blast
  show ?thesis
    unfolding Let_def using t f e s p q by (intro conjI) assumption+
qed

theorem send_command_retry_once_witness:
  "fst (send_command default_config net_reset ''>>Fade 7 40<<'' Bridge_init) = []
   \<and> trace (snd (send_command default_config net_reset ''>>Fade 7 40<<'' Bridge_init))
       = [Request ''>>Fade 7 40<<'', Connect, Xmit ''>>Login 16713<<'', Xmit ''>>Fade 7 40<<'',
          SockClose, Connect, Xmit ''>>Login 16713<<'', Xmit ''>>Fade 7 40<<'', SockClose]
   \<and> \<not> sock (snd (send_command default_config net_reset ''>>Fade 7 40<<'' Bridge_init))
   \<and> filter is_publish
         (trace (device_one default_config net_reset 7 \<lparr>off = False, on = False, level = Some 40\<rparr>
                  Bridge_init)) = []
   \<and> fst (send_command default_config net_eof ''>>Fade 7 40<<'' Bridge_init) = []
   \<and> trace (snd (send_command default_config net_eof ''>>Fade 7 40<<'' Bridge_init))
       = [Request ''>>Fade 7 40<<'', Connect, Xmit ''>>Login 16713<<'', Xmit ''>>Fade 7 40<<'',
          SockClose, Connect, Xmit ''>>Login 16713<<'', Xmit ''>>Fade 7 40<<'']
   \<and> sock (snd (send_command default_config net_eof ''>>Fade 7 40<<'' Bridge_init))
   \<and> filter is_publish
         (trace (device_one default_config net_eof 7 \<lparr>off = False, on = False, level = Some 40\<rparr>
                  Bridge_init)) = []
   \<and> fst (send_command default_config net_reset_all ''>>Fade 7 40<<'' Bridge_init) = []
   \<and> trace (snd (send_command default_config net_reset_all ''>>Fade 7 40<<'' Bridge_init))
       = [Request ''>>Fade 7 40<<'', Connect, Xmit ''>>Login 16713<<'', SockClose]"
proof -
  let ?cmd = "''>>Fade 7 40<<''"
  let ?p = "\<lparr>off = False, on = False, level = Some 40\<rparr>"
  let ?b1 = "Bridge_init\<lparr>sock := True, logged_in := True, tick := Suc (Suc 0),
               trace := [Request ?cmd, Connect, Xmit ''>>Login 16713<<'']\<rparr>"
  have c: "device_cmd 7 ?p = ?cmd"
    by (simp add: device_cmd_def BRIGHTNESS_SCALE_def str_int_literals)
  have l: "login_cmd default_config = ''>>Login 16713<<''"
    by (simp add: login_cmd_def default_config_def str_int_literals)
  have h1: "(if \<not> logged_in Bridge_init \<or> \<not> sock Bridge_init
             then login default_config net_reset (emit (Request ?cmd) Bridge_init)
             else (True, emit (Request ?cmd) Bridge_init)) = (True, ?b1)"
    by (simp add: login_def connect_def close_def send_raw_def emit_def Bridge_init_def
        net_reset_def default_config_def str_int_literals)
  have h2: "exchange net_reset (tick ?b1) ?cmd = OSError"
    by (simp add: net_reset_def)
  have x: "exchange net_reset n ?cmd = OSError"
    "exchange net_reset n ''>>Login 16713<<'' = Reply ''>>Login Ok<<''"
    "connect_ok net_reset n" for n
    by (simp_all add: net_reset_def)
  have g1: "(if \<not> logged_in Bridge_init \<or> \<not> sock Bridge_init
             then login default_config net_eof (emit (Request ?cmd) Bridge_init)
             else (True, emit (Request ?cmd) Bridge_init)) = (True, ?b1)"
    by (simp add: login_def connect_def close_def send_raw_def emit_def Bridge_init_def
        net_eof_def default_config_def str_int_literals)
  have g2: "exchange net_eof (tick ?b1) ?cmd = OSError"
    by (simp add: net_eof_def)
  have y: "exchange net_eof (Suc (Suc (Suc (Suc (Suc 0))))) ?cmd = Reply []"
    "exchange net_eof n ''>>Login 16713<<'' = Reply ''>>Login Ok<<''"
    "connect_ok net_eof n" for n
    by (simp_all add: net_eof_def)
  have a: "fst (send_command default_config net_reset ?cmd Bridge_init) = []
   \<and> trace (snd (send_command default_config net_reset ?cmd Bridge_init))
       = [Request ?cmd, Connect, Xmit ''>>Login 16713<<'', Xmit ?cmd,
          SockClose, Connect, Xmit ''>>Login 16713<<'', Xmit ?cmd, SockClose]
   \<and> \<not> sock (snd (send_command default_config net_reset ?cmd Bridge_init))
   \<and> filter is_publish (trace (device_one default_config net_reset 7 ?p Bridge_init)) = []"
    using send_command_retry_once [OF h1 h2, where did = 7 and p = ?p and s = Bridge_init
        and ?net2.0 = net_reset and ?cmd2.0 = ?cmd]
    by (simp add: Let_def c l x login_ok_def has_directive_def Bridge_init_def)
  have b: "fst (send_command default_config net_eof ?cmd Bridge_init) = []
   \<and> trace (snd (send_command default_config net_eof ?cmd Bridge_init))
       = [Request ?cmd, Connect, Xmit ''>>Login 16713<<'', Xmit ?cmd,
          SockClose, Connect, Xmit ''>>Login 16713<<'', Xmit ?cmd]
   \<and> sock (snd (send_command default_config net_eof ?cmd Bridge_init))
   \<and> filter is_publish (trace (device_one default_config net_eof 7 ?p Bridge_init)) = []"
    using send_command_retry_once [OF g1 g2, where did = 7 and p = ?p and s = Bridge_init
        and ?net2.0 = net_eof and ?cmd2.0 = ?cmd]
    by (simp add: Let_def c l y login_ok_def has_directive_def Bridge_init_def)
  have z: "\<not> (logged_in Bridge_init \<and> sock Bridge_init)"
    "connect_ok net_reset_all (tick Bridge_init)"
    "exchange net_reset_all (Suc (tick Bridge_init)) ''>>Login 16713<<'' = OSError"
    "trace Bridge_init = []" "\<not> sock Bridge_init"
    by (simp_all add: Bridge_init_def net_reset_all_def)
  have d: "fst (send_command default_config net_reset_all ?cmd Bridge_init) = []
   \<and> trace (snd (send_command default_config net_reset_all ?cmd Bridge_init))
       = [Request ?cmd, Connect, Xmit ''>>Login 16713<<'', SockClose]"
    using send_command_retry_once [OF h1 h2, where did = 7 and p = ?p and s = Bridge_init
        and ?net2.0 = net_reset_all and ?cmd2.0 = ?cmd] z
    by (simp add: Let_def l)
  from a b d show ?thesis by simp
qed

text \<open>
  C2 as stated fails: when the send that raises the error is the one of the login request,
  \<open>_login\<close> catches it and \<open>send_command\<close> returns the empty string at once. The
  connection is not opened again and the command is never sent.
\<close>

theorem login_error_counterexample:
  "exchange net_reset_all (Suc 0) ''>>Login 16713<<'' = OSError
   \<and> fst (send_command default_config net_reset_all ''>>Fade 7 40<<'' Bridge_init) = []
   \<and> trace (snd (send_command default_config net_reset_all ''>>Fade 7 40<<'' Bridge_init))
       = [Request ''>>Fade 7 40<<'', Connect, Xmit ''>>Login 16713<<'', SockClose]"
  by (simp add: send_command_def send_command_retry_def login_def connect_def close_def
      send_raw_def emit_def Bridge_init_def net_reset_all_def default_config_def numeral_2_eq_2
      str_int_literals)

section \<open>The calls of a flush\<close>

lemma send_command_calls:
  "calls (trace (snd (send_command cfg net cmd b))) = calls (trace b) @ [Request cmd]"
  unfolding calls_def using send_command_filter [of is_call cfg net cmd b] by simp

lemma pub_state_calls: "calls (trace (pub_state cfg did lvl b)) = calls (trace b)"
  by (simp add: calls_def pub_state_def pub_def emit_def Let_def)

lemma pub_state_same:
  "cmd_q (pub_state cfg did lvl b) = cmd_q b \<and> pending (pub_state cfg did lvl b) = pending b
   \<and> known (pub_state cfg did lvl b) = known b
   \<and> last_level_ts (pub_state cfg did lvl b) = last_level_ts b"
  by (simp add: pub_state_def pub_def emit_def Let_def)

lemma get_name_calls:
  "calls (trace (snd (get_name cfg net did b))) = calls (trace b) @ [Request (name_cmd did)]"
  using send_command_calls [of cfg net "name_cmd did" b]
  by (simp add: get_name_def name_cmd_def case_prod_beta)

lemma get_name_same: "same_data b (snd (get_name cfg net did b))"
  using send_command_same [of b cfg net "name_cmd did"]
  by (simp add: get_name_def name_cmd_def case_prod_beta)

lemma get_level_calls:
  "calls (trace (snd (get_level cfg net did b))) = calls (trace b) @ [Request (level_cmd did)]"
  using send_command_calls [of cfg net "level_cmd did" b]
  by (simp add: get_level_def level_cmd_def case_prod_beta)

lemma get_level_same: "same_data b (snd (get_level cfg net did b))"
  using send_command_same [of b cfg net "level_cmd did"]
  by (simp add: get_level_def level_cmd_def case_prod_beta)

lemma get_devices_calls:
  "calls (trace (snd (get_devices cfg net b))) = calls (trace b) @ [Request ''>>Get Devices<<'']"
  using send_command_calls [of cfg net "''>>Get Devices<<''" b]
  by (simp add: get_devices_def case_prod_beta)

lemma get_devices_same: "same_data b (snd (get_devices cfg net b))"
  using send_command_same [of b cfg net "''>>Get Devices<<''"]
  by (simp add: get_devices_def case_prod_beta)

lemma discover_one_calls:
  "calls (trace (discover_one cfg net did b))
     = calls (trace b) @ discovery_calls cfg did (fst (get_name cfg net did b))"
  using get_name_calls [of cfg net did b]
  by (simp add: discover_one_def pub_discovery_def pub_def emit_def calls_def discovery_calls_def
      case_prod_beta)

lemma discover_one_known:
  "known (discover_one cfg net did b) = known b \<and> pending (discover_one cfg net did b) = pending b"
  using get_name_same [of b cfg net did]
  by (simp add: discover_one_def pub_discovery_def pub_def emit_def same_data_def
      case_prod_beta)

lemma discover_loop_calls:
  "calls (trace (discover_loop cfg net ids b))
     = calls (trace b)
       @ concat (map (\<lambda>(did, nm). discovery_calls cfg did nm)
                   (zip ids (discovered_names cfg net ids b)))"
  by (induction ids arbitrary: b) (simp_all add: discover_one_calls)

lemma discover_loop_known:
  "known (discover_loop cfg net ids b) = known b \<and> pending (discover_loop cfg net ids b) = pending b"
  by (induction ids arbitrary: b) (simp_all add: discover_one_known)

lemma refresh_one_calls:
  "calls (trace (refresh_one cfg net did b)) = calls (trace b) @ refresh_calls did"
proof -
  obtain r b1 where g: "get_level cfg net did b = (r, b1)" by (cases "get_level cfg net did b")
  then have "calls (trace b1) = calls (trace b) @ [Request (level_cmd did)]"
    using get_level_calls [of cfg net did b] by simp
  with g show ?thesis
    by (cases r) (simp_all add: refresh_one_def emit_def calls_def refresh_calls_def
        pub_state_calls [unfolded calls_def])
qed

lemma refresh_one_known:
  "known (refresh_one cfg net did b) = known b \<and> pending (refresh_one cfg net did b) = pending b"
proof -
  obtain r b1 where g: "get_level cfg net did b = (r, b1)" by (cases "get_level cfg net did b")
  then have "known b1 = known b \<and> pending b1 = pending b"
    using get_level_same [of b cfg net did] by (simp add: same_data_def)
  with g show ?thesis
    by (cases r) (simp_all add: refresh_one_def emit_def pub_state_same)
qed

lemma refresh_loop_calls:
  "calls (trace (refresh_loop cfg net ids b)) = calls (trace b) @ concat (map refresh_calls ids)"
  by (induction ids arbitrary: b) (simp_all add: refresh_one_calls)

lemma refresh_loop_known:
  "known (refresh_loop cfg net ids b) = known b \<and> pending (refresh_loop cfg net ids b) = pending b"
  by (induction ids arbitrary: b) (simp_all add: refresh_one_known)

lemma device_one_calls:
  "calls (trace (device_one cfg net did p b)) = calls (trace b) @ device_calls (did, p)"
proof (cases "did \<noteq> 0 \<and> has_directive p")
  case True
  obtain resp b1 where sc: "send_command cfg net (device_cmd did p) b = (resp, b1)"
    by (cases "send_command cfg net (device_cmd did p) b")
  then have "calls (trace b1) = calls (trace b) @ [Request (device_cmd did p)]"
    using send_command_calls [of cfg net "device_cmd did p" b] by simp
  with True sc show ?thesis
    by (simp add: device_one_unified device_op_send emit_def calls_def device_calls_def
        pub_state_calls [unfolded calls_def])
next
  case False
  then show ?thesis using device_one_idle [of did p cfg net b] by (auto simp: device_calls_def)
qed

lemma device_one_known:
  "known (device_one cfg net did p b) = known b \<and> pending (device_one cfg net did p b) = pending b"
proof (cases "did \<noteq> 0 \<and> has_directive p")
  case True
  obtain resp b1 where sc: "send_command cfg net (device_cmd did p) b = (resp, b1)"
    by (cases "send_command cfg net (device_cmd did p) b")
  then have "known b1 = known b \<and> pending b1 = pending b"
    using send_command_same [of b cfg net "device_cmd did p"] by (simp add: same_data_def)
  with True sc show ?thesis
    by (simp add: device_one_unified device_op_send emit_def pub_state_same)
next
  case False
  then show ?thesis using device_one_idle [of did p cfg net b] by auto
qed

lemma device_loop_calls:
  "calls (trace (device_loop cfg net items b)) = calls (trace b) @ concat (map device_calls items)"
  by (induction items arbitrary: b) (auto simp: device_one_calls)

lemma device_loop_known:
  "known (device_loop cfg net items b) = known b \<and> pending (device_loop cfg net items b) = pending b"
  by (induction items arbitrary: b) (auto simp: device_one_known)

lemma discover_phase_result:
  assumes "get_devices cfg net b = (Inr ids, b1)"
  shows "discover_phase cfg net True b
           = (None, if ids \<noteq> [] then discover_loop cfg net ids (b1\<lparr>known := ids\<rparr>) else b1)"
    and "known (snd (discover_phase cfg net True b)) = (if ids \<noteq> [] then ids else known b)"
    and "pending (snd (discover_phase cfg net True b)) = pending b"
    and "calls (trace (snd (discover_phase cfg net True b)))
           = calls (trace b) @ Request ''>>Get Devices<<''
             # concat (map (\<lambda>(did, nm). discovery_calls cfg did nm)
                        (zip ids (discovered_names cfg net ids (b1\<lparr>known := ids\<rparr>))))"
proof -
  have s: "same_data b b1" using get_devices_same [of b cfg net] assms by simp
  have c: "calls (trace b1) = calls (trace b) @ [Request ''>>Get Devices<<'']"
    using get_devices_calls [of cfg net b] assms by simp
  show "discover_phase cfg net True b
           = (None, if ids \<noteq> [] then discover_loop cfg net ids (b1\<lparr>known := ids\<rparr>) else b1)"
    using assms by (simp add: discover_phase_def)
  then show "known (snd (discover_phase cfg net True b)) = (if ids \<noteq> [] then ids else known b)"
    using s by (simp add: discover_loop_known same_data_def)
  show "pending (snd (discover_phase cfg net True b)) = pending b"
    using assms s by (simp add: discover_phase_def discover_loop_known same_data_def)
  show "calls (trace (snd (discover_phase cfg net True b)))
           = calls (trace b) @ Request ''>>Get Devices<<''
             # concat (map (\<lambda>(did, nm). discovery_calls cfg did nm)
                        (zip ids (discovered_names cfg net ids (b1\<lparr>known := ids\<rparr>))))"
    using assms c by (cases "ids = []") (simp_all add: discover_phase_def discover_loop_calls)
qed

lemma refresh_phase_calls:
  "calls (trace (refresh_phase cfg net flag b))
     = calls (trace b) @ (if flag then concat (map refresh_calls (known b)) else [])"
  by (simp add: refresh_phase_def refresh_loop_calls)

lemma refresh_phase_known:
  "known (refresh_phase cfg net flag b) = known b
   \<and> pending (refresh_phase cfg net flag b) = pending b"
  by (simp add: refresh_phase_def refresh_loop_known)

lemma execute_calls:
  assumes "discover_phase cfg net (do_discover (pending b)) (b\<lparr>pending := []\<rparr>) = (None, b1)"
  shows "fst (execute cfg net b) = None"
    and "calls (trace (snd (execute cfg net b)))
           = calls (trace b1)
             @ (if do_refresh (pending b) then concat (map refresh_calls (known b1)) else [])
             @ concat (map device_calls (pending b))"
    and "known (snd (execute cfg net b)) = known b1"
    and "pending (snd (execute cfg net b)) = pending b1"
  using assms
  by (simp_all add: execute_def Let_def device_loop_calls device_loop_known refresh_phase_calls
      refresh_phase_known)

lemma name_query_parts:
  "filter is_name_query (discovery_calls cfg did nm) = [Request (name_cmd did)]"
  "filter is_name_query (refresh_calls did) = []"
  "filter is_name_query (device_calls item) = []"
  by (simp_all add: discovery_calls_def refresh_calls_def device_calls_def name_cmd_def
      level_cmd_def device_cmd_def str_int_not_N split: prod.splits)

lemma discovery_pub_parts:
  "filter is_discovery_pub (discovery_calls cfg did nm)
     = [Publish (t_disc (topics cfg (uid cfg did))) (Json (discovery_payload cfg did nm)) True]"
  "filter is_discovery_pub (refresh_calls did) = []"
  "filter is_discovery_pub (device_calls item) = []"
  by (simp_all add: discovery_calls_def refresh_calls_def device_calls_def split: prod.splits)

lemma request_parts:
  "filter is_request (discovery_calls cfg did nm) = [Request (name_cmd did)]"
  "filter is_request (refresh_calls did) = [Request (level_cmd did)]"
  "filter is_request (device_calls item)
     = (case item of (d, p) \<Rightarrow> if d \<noteq> 0 \<and> has_directive p then [Request (device_cmd d p)] else [])"
  by (simp_all add: discovery_calls_def refresh_calls_def device_calls_def split: prod.splits)

lemma filter_calls: "(\<And>e. P e \<Longrightarrow> is_call e) \<Longrightarrow> filter P (calls tr) = filter P tr"
  unfolding calls_def by (induction tr) auto

lemma name_query_call: "is_name_query e \<Longrightarrow> is_call e"
  by (cases e) auto

lemma discovery_pub_call: "is_discovery_pub e \<Longrightarrow> is_call e"
  by (cases e rule: is_discovery_pub.cases) auto

lemma request_call: "is_request e \<Longrightarrow> is_call e"
  by (cases e) auto

lemma filter_concat_nil:
  "(\<And>x. filter P (f x) = []) \<Longrightarrow> filter P (concat (map f xs)) = []"
  by (induction xs) auto

lemma name_queries_concat:
  "filter is_name_query (concat (map (\<lambda>(did, nm). discovery_calls cfg did nm) (zip ids nms)))
     = map (\<lambda>did. Request (name_cmd did)) (take (length nms) ids)"
  by (induction ids arbitrary: nms; case_tac nms) (simp_all add: name_query_parts)

lemma discovery_pubs_concat:
  "map publish_topic
     (filter is_discovery_pub (concat (map (\<lambda>(did, nm). discovery_calls cfg did nm) (zip ids nms))))
     = map (\<lambda>did. t_disc (topics cfg (uid cfg did))) (take (length nms) ids)"
  by (induction ids arbitrary: nms; case_tac nms) (simp_all add: discovery_pub_parts)

lemma requests_concat:
  "filter is_request (concat (map (\<lambda>(did, nm). discovery_calls cfg did nm) (zip ids nms)))
     = map (\<lambda>did. Request (name_cmd did)) (take (length nms) ids)"
  by (induction ids arbitrary: nms; case_tac nms) (simp_all add: request_parts)

lemma discovered_names_length: "length (discovered_names cfg net ids b) = length ids"
  by (induction ids arbitrary: b) simp_all

lemma flush_name_queries:
  assumes "discover_phase cfg net (do_discover (pending b)) (b\<lparr>pending := []\<rparr>) = (None, b1)"
  shows "filter is_name_query (trace (snd (execute cfg net b))) = filter is_name_query (trace b1)"
    and "filter is_discovery_pub (trace (snd (execute cfg net b))) = filter is_discovery_pub (trace b1)"
proof -
  note c = execute_calls(2) [OF assms]
  have "filter is_name_query (calls (trace (snd (execute cfg net b))))
          = filter is_name_query (calls (trace b1))"
    unfolding c by (simp add: filter_concat_nil name_query_parts)
  then show "filter is_name_query (trace (snd (execute cfg net b))) = filter is_name_query (trace b1)"
    by (simp add: filter_calls name_query_call)
  have "filter is_discovery_pub (calls (trace (snd (execute cfg net b))))
          = filter is_discovery_pub (calls (trace b1))"
    unfolding c by (simp add: filter_concat_nil discovery_pub_parts)
  then show "filter is_discovery_pub (trace (snd (execute cfg net b))) = filter is_discovery_pub (trace b1)"
    by (simp add: filter_calls discovery_pub_call)
qed

section \<open>Discovery\<close>

lemma devices_field:
  assumes "CHR ''<'' \<notin> set part" "CHR ''>'' \<notin> set part"
    and "rest = [] \<or> startswith rest ''<<''"
  shows "hd (py_split ''<<'' (py_split ''>>Get Devices '' (''>>Get Devices '' @ part @ rest) ! 1))
           = part"
proof -
  let ?P = "''>>Get Devices ''"
  have "py_split ?P (?P @ part @ rest) = [] # split_from ?P [] (part @ rest)"
    unfolding py_split_def by (rule split_from_sep) simp
  then have one: "py_split ?P (?P @ part @ rest) ! 1 = hd (split_from ?P part rest)"
    using split_from_skip [of ?P part "[]" rest] assms(2) split_from_nonempty [of ?P part rest]
    by (simp add: hd_conv_nth)
  have "\<exists>r. hd (split_from ?P part rest) = part @ r \<and> (r = [] \<or> startswith r ''<<'')"
  proof (cases "rest = []")
    case True
    then show ?thesis by simp
  next
    case False
    with assms(3) obtain t where t: "rest = ''<<'' @ t" using startswith_decomp by blast
    obtain r where "hd (split_from ?P (part @ ''<<'') t) = (part @ ''<<'') @ r"
      using split_from_hd_prefix by blast
    then show ?thesis unfolding t using split_from_skip [of ?P "''<<''" part t] by simp
  qed
  then obtain r where r: "hd (split_from ?P part rest) = part @ r" "r = [] \<or> startswith r ''<<''"
    by blast
  from field_upto_marker [OF assms(1) r(2)] one r(1) show ?thesis by simp
qed

lemma parse_devices_tokens:
  assumes "CHR ''<'' \<notin> set part" "CHR ''>'' \<notin> set part"
  shows "parse_devices (''>>Get Devices '' @ part @ ''<<'')
           = ints_of (filter py_isdigit (map py_strip (py_split '','' part)))"
proof -
  have "py_in ''>>Get Devices '' (''>>Get Devices '' @ part @ ''<<'')"
    using py_in_append [of "''>>Get Devices ''" "[]" "part @ ''<<''"] by simp
  moreover have "hd (py_split ''<<'' (py_split ''>>Get Devices ''
                   (''>>Get Devices '' @ part @ ''<<'') ! 1)) = part"
    by (rule devices_field [OF assms]) simp
  ultimately show ?thesis by (simp only: parse_devices_def Let_def if_True)
qed

lemma parse_devices_no_prefix: "\<not> py_in ''>>Get Devices '' resp \<Longrightarrow> parse_devices resp = Inr []"
  by (simp add: parse_devices_def)

lemma send_command_down:
  assumes "\<not> (logged_in b \<and> sock b)" "\<not> connect_ok net (tick b)"
  shows "fst (send_command cfg net cmd b) = []"
  using assms
  by (auto simp: send_command_def send_command_retry_def numeral_2_eq_2 login_def connect_def
      close_def emit_def Let_def)

lemma get_devices_fst:
  "fst (get_devices cfg net b) = parse_devices (fst (send_command cfg net ''>>Get Devices<<'' b))"
  by (simp add: get_devices_def case_prod_beta)

text \<open>
  C10. In a flush whose discovery flag is set and in which \<open>get_devices\<close> returns an
  empty list, the known devices stay as they were and the flush makes no name query and
  no discovery publication. \<open>get_devices\<close> returns the empty list for a reply without
  the \<open>>>Get Devices\<close> prefix, which the empty reply is, and when no session is up and
  the connection attempt fails; of a well-formed reply it keeps only the tokens for which
  \<open>isdigit\<close> holds.
\<close>

theorem discovery_empty_keeps_known:
  assumes "do_discover (pending b)"
    and "fst (get_devices cfg net (b\<lparr>pending := []\<rparr>)) = Inr []"
  shows "fst (execute cfg net b) = None
       \<and> known (snd (execute cfg net b)) = known b
       \<and> filter is_name_query (trace (snd (execute cfg net b))) = filter is_name_query (trace b)
       \<and> filter is_discovery_pub (trace (snd (execute cfg net b)))
           = filter is_discovery_pub (trace b)
       \<and> (\<not> py_in ''>>Get Devices '' resp \<longrightarrow> parse_devices resp = Inr [])
       \<and> (\<not> (logged_in s \<and> sock s) \<and> \<not> connect_ok net (tick s)
            \<longrightarrow> fst (get_devices cfg net s) = Inr [])
       \<and> (CHR ''<'' \<notin> set part \<and> CHR ''>'' \<notin> set part
            \<longrightarrow> parse_devices (''>>Get Devices '' @ part @ ''<<'')
                = ints_of (filter py_isdigit (map py_strip (py_split '','' part))))"
proof -
  let ?b0 = "b\<lparr>pending := []\<rparr>"
  obtain b1 where g: "get_devices cfg net ?b0 = (Inr [], b1)"
    using assms(2) by (cases "get_devices cfg net ?b0") simp
  note d = discover_phase_result [OF g]
  obtain b2 where p: "discover_phase cfg net (do_discover (pending b)) ?b0 = (None, b2)"
    using d(1) assms(1) by simp
  then have b2: "b2 = snd (discover_phase cfg net True ?b0)" using assms(1) by simp
  have c: "calls (trace b2) = calls (trace b) @ [Request ''>>Get Devices<<'']"
    using d(4) b2 by simp
  have n: "filter is_name_query (trace b2) = filter is_name_query (trace b)"
  proof -
    have "filter is_name_query (calls (trace b2)) = filter is_name_query (calls (trace b))"
      unfolding c by simp
    then show ?thesis by (simp add: filter_calls name_query_call)
  qed
  have q: "filter is_discovery_pub (trace b2) = filter is_discovery_pub (trace b)"
  proof -
    have "filter is_discovery_pub (calls (trace b2)) = filter is_discovery_pub (calls (trace b))"
      unfolding c by simp
    then show ?thesis by (simp add: filter_calls discovery_pub_call)
  qed
  have k: "known b2 = known b" using d(2) b2 by simp
  have e: "\<not> (logged_in s \<and> sock s) \<and> \<not> connect_ok net (tick s)
             \<longrightarrow> fst (get_devices cfg net s) = Inr []"
    using send_command_down [of s net cfg "''>>Get Devices<<''"]
    by (auto simp: get_devices_fst parse_devices_def)
  show ?thesis
    using execute_calls(1,3) [OF p] flush_name_queries [OF p] n q k e parse_devices_no_prefix
      parse_devices_tokens
    by simp
qed

theorem discovery_empty_keeps_known_witness:
  "known (snd (execute default_config net_down
                 (accumulate ''discover'' 0 None (Bridge_init\<lparr>known := [9]\<rparr>)))) = [9]
   \<and> filter is_name_query
        (trace (snd (execute default_config net_down
                      (accumulate ''discover'' 0 None (Bridge_init\<lparr>known := [9]\<rparr>))))) = []
   \<and> filter is_discovery_pub
        (trace (snd (execute default_config net_down
                      (accumulate ''discover'' 0 None (Bridge_init\<lparr>known := [9]\<rparr>))))) = []
   \<and> parse_devices ''>>Devices 3<<'' = Inr []
   \<and> fst (get_devices default_config net_down Bridge_init) = Inr []
   \<and> parse_devices ''>>Get Devices 3,x, 5,-1,<<'' = Inr [3, 5]"
proof -
  let ?b = "accumulate ''discover'' 0 None (Bridge_init\<lparr>known := [9]\<rparr>)"
  have pb: "pending ?b = [(0, \<lparr>off = False, on = True, level = None\<rparr>)]"
    by (simp add: accumulate_def pending_get_def pending_set_def Bridge_init_def Pending_new_def)
  have h1: "do_discover (pending ?b)"
    unfolding pb by (simp add: do_discover_def)
  have sc: "fst (send_command default_config net_down ''>>Get Devices<<'' (?b\<lparr>pending := []\<rparr>)) = []"
    by (rule send_command_down)
      (simp_all add: accumulate_def pending_set_def Bridge_init_def net_down_def)
  have h2: "fst (get_devices default_config net_down (?b\<lparr>pending := []\<rparr>)) = Inr []"
    by (simp add: get_devices_fst sc parse_devices_def)
  have tr: "trace ?b = []" "known ?b = [9]"
    by (simp_all add: accumulate_def pending_set_def Bridge_init_def)
  have np: "\<not> py_in ''>>Get Devices '' ''>>Devices 3<<''"
    by simp
  have dn: "\<not> (logged_in Bridge_init \<and> sock Bridge_init)"
    "\<not> connect_ok net_down (tick Bridge_init)"
    by (simp_all add: Bridge_init_def net_down_def)
  have tk: "ints_of (filter py_isdigit (map py_strip (py_split '','' ''3,x, 5,-1,''))) = Inr [3, 5]"
    by code_simp
  have ch: "CHR ''<'' \<notin> set ''3,x, 5,-1,''" "CHR ''>'' \<notin> set ''3,x, 5,-1,''"
    by simp_all
  show ?thesis
    using discovery_empty_keeps_known [OF h1 h2, where resp = "''>>Devices 3<<''"
        and s = Bridge_init and part = "''3,x, 5,-1,''"] tr np dn tk ch
    by simp
qed

text \<open>
  C4. In a flush whose discovery flag is set and in which \<open>get_devices\<close> returns the ids
  3 and 5, the known devices become exactly 3 and 5, whatever they were, and the flush
  makes exactly one name query and exactly one discovery publication for each of the two
  ids, in that order.
\<close>

theorem discovery_replaces_known:
  assumes "do_discover (pending b)"
    and "fst (get_devices cfg net (b\<lparr>pending := []\<rparr>)) = Inr [3, 5]"
  shows "fst (execute cfg net b) = None
       \<and> known (snd (execute cfg net b)) = [3, 5]
       \<and> filter is_name_query (trace (snd (execute cfg net b)))
           = filter is_name_query (trace b) @ [Request (name_cmd 3), Request (name_cmd 5)]
       \<and> map publish_topic (filter is_discovery_pub (trace (snd (execute cfg net b))))
           = map publish_topic (filter is_discovery_pub (trace b))
             @ [t_disc (topics cfg (uid cfg 3)), t_disc (topics cfg (uid cfg 5))]"
proof -
  let ?b0 = "b\<lparr>pending := []\<rparr>"
  obtain b1 where g: "get_devices cfg net ?b0 = (Inr [3, 5], b1)"
    using assms(2) by (cases "get_devices cfg net ?b0") simp
  note d = discover_phase_result [OF g]
  obtain b2 where p: "discover_phase cfg net (do_discover (pending b)) ?b0 = (None, b2)"
    using d(1) assms(1) by simp
  then have b2: "b2 = snd (discover_phase cfg net True ?b0)" using assms(1) by simp
  have c: "calls (trace b2)
             = calls (trace b) @ Request ''>>Get Devices<<''
               # concat (map (\<lambda>(did, nm). discovery_calls cfg did nm)
                          (zip [3, 5] (discovered_names cfg net [3, 5] (b1\<lparr>known := [3, 5]\<rparr>))))"
    using d(4) b2 by simp
  have n: "filter is_name_query (trace b2)
             = filter is_name_query (trace b) @ [Request (name_cmd 3), Request (name_cmd 5)]"
  proof -
    have "filter is_name_query (calls (trace b2))
            = filter is_name_query (calls (trace b)) @ [Request (name_cmd 3), Request (name_cmd 5)]"
      unfolding c by (simp add: name_query_parts)
    then show ?thesis by (simp add: filter_calls name_query_call)
  qed
  have q: "map publish_topic (filter is_discovery_pub (trace b2))
             = map publish_topic (filter is_discovery_pub (trace b))
               @ [t_disc (topics cfg (uid cfg 3)), t_disc (topics cfg (uid cfg 5))]"
  proof -
    have "map publish_topic (filter is_discovery_pub (calls (trace b2)))
            = map publish_topic (filter is_discovery_pub (calls (trace b)))
              @ [t_disc (topics cfg (uid cfg 3)), t_disc (topics cfg (uid cfg 5))]"
      unfolding c by (simp add: discovery_pub_parts)
    then show ?thesis by (simp add: filter_calls discovery_pub_call)
  qed
  have k: "known b2 = [3, 5]" using d(2) b2 by simp
  show ?thesis
    using execute_calls(1,3) [OF p] flush_name_queries [OF p] n q k by simp
qed

lemma session_replies:
  "connect_ok net_two n"
  "exchange net_two n ''>>Login 16713<<'' = Reply ''>>Login Ok<<''"
  "exchange net_two n ''>>Get Devices<<'' = Reply ''>>Get Devices 3, 5<<''"
  "exchange net_two n ''>>Get Name 3<<'' = Reply ''>>Get Name Hall<<''"
  "exchange net_two n ''>>Get Name 5<<'' = Reply ''>>Get Name Hall<<''"
  by (simp_all add: net_two_def)

theorem discovery_replaces_known_witness:
  "known (accumulate ''discover'' 0 None (Bridge_init\<lparr>known := [9]\<rparr>)) = [9]
   \<and> known (snd (execute default_config net_two
                   (accumulate ''discover'' 0 None (Bridge_init\<lparr>known := [9]\<rparr>)))) = [3, 5]
   \<and> filter is_name_query
        (trace (snd (execute default_config net_two
                      (accumulate ''discover'' 0 None (Bridge_init\<lparr>known := [9]\<rparr>)))))
       = [Request ''>>Get Name 3<<'', Request ''>>Get Name 5<<'']
   \<and> map publish_topic
        (filter is_discovery_pub
          (trace (snd (execute default_config net_two
                        (accumulate ''discover'' 0 None (Bridge_init\<lparr>known := [9]\<rparr>))))))
       = [''homeassistant/light/zensebridge_3/config'', ''homeassistant/light/zensebridge_5/config'']"
proof -
  let ?b = "accumulate ''discover'' 0 None (Bridge_init\<lparr>known := [9]\<rparr>)"
  have pb: "pending ?b = [(0, \<lparr>off = False, on = True, level = None\<rparr>)]"
    by (simp add: accumulate_def pending_get_def pending_set_def Bridge_init_def Pending_new_def)
  have h1: "do_discover (pending ?b)"
    unfolding pb by (simp add: do_discover_def)
  have pd: "parse_devices ''>>Get Devices 3, 5<<'' = Inr [3, 5]"
    by code_simp
  have sc: "fst (send_command default_config net_two ''>>Get Devices<<'' (?b\<lparr>pending := []\<rparr>))
              = ''>>Get Devices 3, 5<<''"
    by (simp add: send_command_def send_command_retry_def login_def connect_def close_def
        send_raw_def emit_def Bridge_init_def accumulate_def pending_get_def pending_set_def
        session_replies default_config_def numeral_2_eq_2 str_int_literals)
  have h2: "fst (get_devices default_config net_two (?b\<lparr>pending := []\<rparr>)) = Inr [3, 5]"
    by (simp only: get_devices_fst sc pd)
  have tr: "trace ?b = []" "known ?b = [9]"
    by (simp_all add: accumulate_def pending_set_def Bridge_init_def)
  have tp: "t_disc (topics default_config (uid default_config 3))
              = ''homeassistant/light/zensebridge_3/config''"
    "t_disc (topics default_config (uid default_config 5))
              = ''homeassistant/light/zensebridge_5/config''"
    by (simp_all add: topics_def uid_def default_config_def str_int_literals)
  show ?thesis
    using discovery_replaces_known [OF h1 h2] tr tp
    by (simp add: name_cmd_def str_int_literals)
qed

section \<open>The device operations of a flush\<close>

lemma filter_concat_map:
  "filter P (concat (map f xs)) = concat (map (\<lambda>x. filter P (f x)) xs)"
  by (induction xs) auto

lemma device_requests:
  "filter is_request (concat (map device_calls items))
     = map (\<lambda>(d, p). Request (device_cmd d p))
         (filter (\<lambda>(d, p). d \<noteq> 0 \<and> has_directive p) items)"
  by (induction items) (auto simp: request_parts split: if_splits)

lemma refresh_requests:
  "filter is_request (concat (map refresh_calls ids)) = map (\<lambda>d. Request (level_cmd d)) ids"
  by (induction ids) (auto simp: request_parts)

lemma discover_phase_requests:
  assumes "fst (discover_phase cfg net flag b) = None"
  shows "filter is_request (trace (snd (discover_phase cfg net flag b)))
           = filter is_request (trace b)
             @ (if flag
                then Request ''>>Get Devices<<''
                     # map (\<lambda>d. Request (name_cmd d))
                         (case fst (get_devices cfg net b) of Inl e \<Rightarrow> [] | Inr ids \<Rightarrow> ids)
                else [])"
proof (cases flag)
  case False
  then show ?thesis by (simp add: discover_phase_def)
next
  case True
  obtain r b1 where g: "get_devices cfg net b = (r, b1)" by (cases "get_devices cfg net b")
  with assms True obtain ids where r: "r = Inr ids"
    by (cases r) (auto simp: discover_phase_def)
  note d = discover_phase_result [OF g [unfolded r]]
  have "filter is_request (calls (trace (snd (discover_phase cfg net True b))))
          = filter is_request (calls (trace b))
            @ Request ''>>Get Devices<<'' # map (\<lambda>d. Request (name_cmd d)) ids"
    unfolding d(4) by (simp add: requests_concat discovered_names_length)
  then show ?thesis using True g r by (simp add: filter_calls request_call)
qed

lemma discover_phase_ok:
  "fst (get_devices cfg net b) = Inr ids \<Longrightarrow> fst (discover_phase cfg net flag b) = None"
  by (cases "get_devices cfg net b") (auto simp: discover_phase_def)

lemma device_cmd_priority:
  "off p \<Longrightarrow> device_cmd d p = ''>>Set '' @ str_int d @ '' 0<<''"
  "\<not> off p \<Longrightarrow> level p = Some l \<Longrightarrow>
     device_cmd d p = ''>>Fade '' @ str_int d @ '' '' @ str_int (max 0 (min 100 l)) @ ''<<''"
  "\<not> off p \<Longrightarrow> level p = None \<Longrightarrow> device_cmd d p = ''>>Set '' @ str_int d @ '' 100<<''"
  by (simp_all add: device_cmd_def BRIGHTNESS_SCALE_def str_int_literals)

text \<open>
  What a flush does when its discovery step returns. The requests of the flush are, in
  this order, those of the discovery (the device query and one name query for each id it
  returned), those of the refresh, and one operation for every entry of the snapshot with
  a device id other than 0 and a directive, in the order of the snapshot: Off when \<open>off\<close>
  is set, else Fade to the clamped level when a level is pending, else On. The state of a
  device is published after its operation when the response is not empty, and nothing is
  published for it when the response is empty.
\<close>

lemma flush_device_operations:
  assumes "fst (discover_phase cfg net (do_discover (pending b)) (b\<lparr>pending := []\<rparr>)) = None"
  shows "fst (execute cfg net b) = None
       \<and> filter is_request (trace (snd (execute cfg net b)))
           = filter is_request (trace b)
             @ (if do_discover (pending b)
                then Request ''>>Get Devices<<''
                     # map (\<lambda>d. Request (name_cmd d))
                         (case fst (get_devices cfg net (b\<lparr>pending := []\<rparr>)) of
                            Inl e \<Rightarrow> [] | Inr ids \<Rightarrow> ids)
                else [])
             @ (if do_refresh (pending b)
                then map (\<lambda>d. Request (level_cmd d))
                       (known (snd (discover_phase cfg net (do_discover (pending b))
                                     (b\<lparr>pending := []\<rparr>))))
                else [])
             @ map (\<lambda>(d, p). Request (device_cmd d p))
                 (filter (\<lambda>(d, p). d \<noteq> 0 \<and> has_directive p) (pending b))
       \<and> (off p \<longrightarrow> device_cmd d p = ''>>Set '' @ str_int d @ '' 0<<'')
       \<and> (\<not> off p \<and> level p = Some l
            \<longrightarrow> device_cmd d p
                = ''>>Fade '' @ str_int d @ '' '' @ str_int (max 0 (min 100 l)) @ ''<<'')
       \<and> (\<not> off p \<and> level p = None \<longrightarrow> device_cmd d p = ''>>Set '' @ str_int d @ '' 100<<'')
       \<and> (d \<noteq> 0 \<and> has_directive p
            \<longrightarrow> device_one cfg net d p s
                = (case send_command cfg net (device_cmd d p) s of
                     (resp, s1) \<Rightarrow>
                       emit Sleep_gap
                         (if resp \<noteq> [] then pub_state cfg d (device_level p) s1 else s1)))
       \<and> (d \<noteq> 0 \<and> has_directive p \<and> fst (send_command cfg net (device_cmd d p) s) = []
            \<longrightarrow> filter is_publish (trace (device_one cfg net d p s))
                = filter is_publish (trace s))"
proof -
  let ?b0 = "b\<lparr>pending := []\<rparr>"
  let ?D = "do_discover (pending b)"
  obtain b1 where p: "discover_phase cfg net ?D ?b0 = (None, b1)"
    using assms by (cases "discover_phase cfg net ?D ?b0") simp
  then have b1: "b1 = snd (discover_phase cfg net ?D ?b0)" by simp
  have r1: "filter is_request (trace b1)
              = filter is_request (trace b)
                @ (if ?D
                   then Request ''>>Get Devices<<''
                        # map (\<lambda>d. Request (name_cmd d))
                            (case fst (get_devices cfg net ?b0) of Inl e \<Rightarrow> [] | Inr ids \<Rightarrow> ids)
                   else [])"
    using discover_phase_requests [OF assms] b1 by simp
  have "filter is_request (calls (trace (snd (execute cfg net b))))
          = filter is_request (calls (trace b1))
            @ (if do_refresh (pending b) then map (\<lambda>d. Request (level_cmd d)) (known b1) else [])
            @ map (\<lambda>(d, p). Request (device_cmd d p))
                (filter (\<lambda>(d, p). d \<noteq> 0 \<and> has_directive p) (pending b))"
    unfolding execute_calls(2) [OF p] by (simp add: device_requests refresh_requests)
  then have r2: "filter is_request (trace (snd (execute cfg net b)))
          = filter is_request (trace b1)
            @ (if do_refresh (pending b) then map (\<lambda>d. Request (level_cmd d)) (known b1) else [])
            @ map (\<lambda>(d, p). Request (device_cmd d p))
                (filter (\<lambda>(d, p). d \<noteq> 0 \<and> has_directive p) (pending b))"
    by (simp add: filter_calls request_call)
  have one: "d \<noteq> 0 \<and> has_directive p
            \<longrightarrow> device_one cfg net d p s
                = (case send_command cfg net (device_cmd d p) s of
                     (resp, s1) \<Rightarrow>
                       emit Sleep_gap
                         (if resp \<noteq> [] then pub_state cfg d (device_level p) s1 else s1))"
    by (simp add: device_one_unified device_op_send)
  have c1: "off p \<longrightarrow> device_cmd d p = ''>>Set '' @ str_int d @ '' 0<<''"
    using device_cmd_priority(1) by blast
  have c2: "\<not> off p \<and> level p = Some l
            \<longrightarrow> device_cmd d p
                = ''>>Fade '' @ str_int d @ '' '' @ str_int (max 0 (min 100 l)) @ ''<<''"
    using device_cmd_priority(2) by blast
  have c3: "\<not> off p \<and> level p = None \<longrightarrow> device_cmd d p = ''>>Set '' @ str_int d @ '' 100<<''"
    using device_cmd_priority(3) by blast
  have c4: "d \<noteq> 0 \<and> has_directive p \<and> fst (send_command cfg net (device_cmd d p) s) = []
            \<longrightarrow> filter is_publish (trace (device_one cfg net d p s))
                = filter is_publish (trace s)"
    using device_one_unconfirmed by blast
  have r3: "filter is_request (trace (snd (execute cfg net b)))
           = filter is_request (trace b)
             @ (if do_discover (pending b)
                then Request ''>>Get Devices<<''
                     # map (\<lambda>d. Request (name_cmd d))
                         (case fst (get_devices cfg net (b\<lparr>pending := []\<rparr>)) of
                            Inl e \<Rightarrow> [] | Inr ids \<Rightarrow> ids)
                else [])
             @ (if do_refresh (pending b)
                then map (\<lambda>d. Request (level_cmd d))
                       (known (snd (discover_phase cfg net (do_discover (pending b))
                                     (b\<lparr>pending := []\<rparr>))))
                else [])
             @ map (\<lambda>(d, p). Request (device_cmd d p))
                 (filter (\<lambda>(d, p). d \<noteq> 0 \<and> has_directive p) (pending b))"
    using r2 r1 unfolding b1 by (simp only: append_assoc)
  show ?thesis
    using execute_calls(1) [OF p] r3 one c1 c2 c3 c4
    by (intro conjI) assumption+
qed

lemma accumulate_frame: "(accumulate kind did val b)\<lparr>pending := x\<rparr> = b\<lparr>pending := x\<rparr>"
  by (simp add: accumulate_def pending_set_def Let_def)

lemma accumulate_all_frame: "(accumulate_all items b)\<lparr>pending := x\<rparr> = b\<lparr>pending := x\<rparr>"
proof (induction items arbitrary: b)
  case Nil
  then show ?case by (simp add: accumulate_all_def)
next
  case (Cons i items)
  obtain kind did val where i: "i = (kind, did, val)" by (cases i)
  have "accumulate_all (i # items) b = accumulate_all items (accumulate kind did val b)"
    by (simp add: accumulate_all_def i)
  then show ?case using Cons.IH [of "accumulate kind did val b"] accumulate_frame by simp
qed

lemma accumulate_all_trace: "trace (accumulate_all items b) = trace b"
  using arg_cong [OF accumulate_all_frame [where x = "[]"], of trace items b] by simp

lemma trace_init: "trace Bridge_init = []"
  by (simp add: Bridge_init_def)

lemma flush_device_operations_example:
  "filter is_request
     (trace (snd (execute default_config net_two
                   (accumulate_all
                      [(''discover'', 0, None), (''off'', 7, None), (''level'', 3, Some 50),
                       (''on'', 8, None)] Bridge_init))))
     = [Request ''>>Get Devices<<'', Request ''>>Get Name 3<<'', Request ''>>Get Name 5<<'',
        Request ''>>Set 7 0<<'', Request ''>>Fade 3 50<<'', Request ''>>Set 8 100<<'']
   \<and> filter is_publish
        (trace (device_one default_config net_down 7 \<lparr>off = True, on = False, level = None\<rparr>
                 Bridge_init)) = []
   \<and> filter is_publish
        (trace (device_one default_config net_two 3 \<lparr>off = False, on = False, level = Some 50\<rparr>
                 Bridge_init))
       = [Publish ''homeassistant/zense_bridge/zensebridge_3/state'' (Text ''ON'') True,
          Publish ''homeassistant/zense_bridge/zensebridge_3/brightness/state'' (Text ''50'') True]"
proof -
  let ?b = "accumulate_all
              [(''discover'', 0, None), (''off'', 7, None), (''level'', 3, Some 50),
               (''on'', 8, None)] Bridge_init"
  let ?off = "\<lparr>off = True, on = False, level = None\<rparr>"
  let ?lvl = "\<lparr>off = False, on = False, level = Some 50\<rparr>"
  let ?on = "\<lparr>off = False, on = True, level = None\<rparr>"
  have pb: "pending ?b = [(0, ?on), (7, ?off), (3, ?lvl), (8, ?on)]"
    by (simp add: accumulate_all_def accumulate_def pending_get_def pending_set_def
        Bridge_init_def Pending_new_def BRIGHTNESS_SCALE_def)
  have b0: "?b\<lparr>pending := []\<rparr> = Bridge_init"
    unfolding accumulate_all_frame by (simp add: Bridge_init_def)
  have tr: "trace ?b = []"
    unfolding accumulate_all_trace by (simp add: Bridge_init_def)
  have fl: "do_discover (pending ?b)" "\<not> do_refresh (pending ?b)"
    unfolding pb by (simp_all add: do_discover_def do_refresh_def)
  have pd: "parse_devices ''>>Get Devices 3, 5<<'' = Inr [3, 5]"
    by code_simp
  have sc: "fst (send_command default_config net_two ''>>Get Devices<<'' Bridge_init)
              = ''>>Get Devices 3, 5<<''"
    by (simp add: send_command_def send_command_retry_def login_def connect_def close_def
        send_raw_def emit_def Bridge_init_def session_replies default_config_def numeral_2_eq_2
        str_int_literals)
  have gd: "fst (get_devices default_config net_two Bridge_init) = Inr [3, 5]"
    by (simp only: get_devices_fst sc pd)
  have h: "fst (discover_phase default_config net_two (do_discover (pending ?b))
                 (?b\<lparr>pending := []\<rparr>)) = None"
    unfolding b0 using gd by (rule discover_phase_ok)
  have cm: "device_cmd 7 ?off = ''>>Set 7 0<<''" "device_cmd 3 ?lvl = ''>>Fade 3 50<<''"
    "device_cmd 8 ?on = ''>>Set 8 100<<''"
    by (simp_all add: device_cmd_def BRIGHTNESS_SCALE_def str_int_literals)
  have dr: "has_directive ?off" "has_directive ?lvl" "has_directive ?on"
    "\<not> has_directive Pending_new"
    by (simp_all add: has_directive_def Pending_new_def)
  have w1: "filter is_request (trace (snd (execute default_config net_two ?b)))
     = [Request ''>>Get Devices<<'', Request ''>>Get Name 3<<'', Request ''>>Get Name 5<<'',
        Request ''>>Set 7 0<<'', Request ''>>Fade 3 50<<'', Request ''>>Set 8 100<<'']"
    using flush_device_operations [OF h, where p = ?off and d = 7 and l = 0 and s = Bridge_init]
    unfolding b0 by (simp add: fl fl [unfolded pb] pb tr gd cm dr name_cmd_def str_int_literals)
  have h2: "fst (discover_phase default_config net_down (do_discover (pending Bridge_init))
                  (Bridge_init\<lparr>pending := []\<rparr>)) = None"
    by (simp add: discover_phase_def do_discover_def Bridge_init_def)
  have dn: "fst (send_command default_config net_down (device_cmd 7 ?off) Bridge_init) = []"
    by (rule send_command_down) (simp_all add: Bridge_init_def net_down_def)
  have w2: "filter is_publish (trace (device_one default_config net_down 7 ?off Bridge_init)) = []"
  proof -
    note t = flush_device_operations [OF h2, where p = ?off and d = 7 and l = 0 and s = Bridge_init]
    have "7 \<noteq> (0 :: int) \<and> has_directive ?off
          \<and> fst (send_command default_config net_down (device_cmd 7 ?off) Bridge_init) = []"
      using dn dr(1) by simp
    with t have "filter is_publish (trace (device_one default_config net_down 7 ?off Bridge_init))
                   = filter is_publish (trace Bridge_init)"
      by blast
    then show ?thesis by (simp add: trace_init)
  qed
  have up: "send_command default_config net_two ''>>Fade 3 50<<'' Bridge_init
              = (''>>Ok<<'',
                 Bridge_init\<lparr>sock := True, logged_in := True, tick := Suc (Suc (Suc 0)),
                   trace := [Request ''>>Fade 3 50<<'', Connect, Xmit ''>>Login 16713<<'',
                             Xmit ''>>Fade 3 50<<'']\<rparr>)"
    by (simp add: send_command_def send_command_retry_def login_def connect_def close_def
        send_raw_def emit_def Bridge_init_def net_two_def default_config_def numeral_2_eq_2
        str_int_literals)
  have w3: "filter is_publish (trace (device_one default_config net_two 3 ?lvl Bridge_init))
       = [Publish ''homeassistant/zense_bridge/zensebridge_3/state'' (Text ''ON'') True,
          Publish ''homeassistant/zense_bridge/zensebridge_3/brightness/state'' (Text ''50'') True]"
  proof -
    note t = flush_device_operations [OF h, where p = ?lvl and d = 3 and l = 50 and s = Bridge_init]
    have "3 \<noteq> (0 :: int) \<and> has_directive ?lvl" using dr(2) by simp
    with t have "device_one default_config net_two 3 ?lvl Bridge_init
                   = (case send_command default_config net_two (device_cmd 3 ?lvl) Bridge_init of
                        (resp, s1) \<Rightarrow>
                          emit Sleep_gap
                            (if resp \<noteq> [] then pub_state default_config 3 (device_level ?lvl) s1
                             else s1))"
      by blast
    then have "device_one default_config net_two 3 ?lvl Bridge_init
                 = emit Sleep_gap
                     (pub_state default_config 3 50
                       (Bridge_init\<lparr>sock := True, logged_in := True, tick := Suc (Suc (Suc 0)),
                          trace := [Request ''>>Fade 3 50<<'', Connect, Xmit ''>>Login 16713<<'',
                                    Xmit ''>>Fade 3 50<<'']\<rparr>))"
      by (simp add: cm up device_level_def)
    then show ?thesis
      by (simp add: pub_state_def pub_def emit_def Let_def topics_def
          uid_def default_config_def BRIGHTNESS_SCALE_def Bridge_init_def str_int_literals)
  qed
  from w1 w2 w3 show ?thesis by simp
qed

text \<open>
  The filter of \<open>get_devices\<close> passes a token of superscript digits, and \<open>int\<close> rejects
  it. The exception ends the flush after the discovery request: the snapshot of the
  pending map is lost and no device operation is issued.
\<close>

lemma parse_devices_superscript:
  "parse_devices (''>>Get Devices 3,'' @ [CHR 0xB2] @ ''<<'') = Inl ValueError"
  by code_simp

lemma execute_aborted:
  assumes "do_discover (pending b)"
    and "fst (get_devices cfg net (b\<lparr>pending := []\<rparr>)) = Inl e"
  shows "fst (execute cfg net b) = Some e"
    and "pending (snd (execute cfg net b)) = []"
    and "filter is_request (trace (snd (execute cfg net b)))
           = filter is_request (trace b) @ [Request ''>>Get Devices<<'']"
proof -
  let ?b0 = "b\<lparr>pending := []\<rparr>"
  obtain b1 where g: "get_devices cfg net ?b0 = (Inl e, b1)"
    using assms(2) by (cases "get_devices cfg net ?b0") simp
  then have x: "execute cfg net b = (Some e, b1)"
    using assms(1) by (simp add: execute_def discover_phase_def Let_def)
  show "fst (execute cfg net b) = Some e" using x by simp
  show "pending (snd (execute cfg net b)) = []"
    using x g get_devices_same [of ?b0 cfg net] by (simp add: same_data_def)
  have "filter is_request (calls (trace b1))
          = filter is_request (calls (trace b)) @ [Request ''>>Get Devices<<'']"
    using get_devices_calls [of cfg net ?b0] g by simp
  then show "filter is_request (trace (snd (execute cfg net b)))
           = filter is_request (trace b) @ [Request ''>>Get Devices<<'']"
    using x by (simp add: filter_calls request_call)
qed

text \<open>
  C3. In a single flush every device other than 0 with a pending directive gets exactly
  one controller operation (Off, else Fade, else On), published only on a non-empty
  response, after the discovery. The code misses this when the discovery raises: with a
  discover intent and an Off intent for device 7 pending, and a device list whose second
  token is the superscript two, \<open>isdigit\<close> passes the token, \<open>int\<close> refuses it, and the
  \<open>ValueError\<close> ends \<open>_execute\<close> after the discovery request. The pending map is
  already cleared, and no operation is issued for device 7.
\<close>

theorem flush_aborted_by_superscript:
  "pending (accumulate_all [(''discover'', 0, None), (''off'', 7, None)] Bridge_init)
     = [(0, \<lparr>off = False, on = True, level = None\<rparr>), (7, \<lparr>off = True, on = False, level = None\<rparr>)]
   \<and> py_isdigit [CHR 0xB2] \<and> py_int [CHR 0xB2] = None
   \<and> fst (execute default_config net_superscript
             (accumulate_all [(''discover'', 0, None), (''off'', 7, None)] Bridge_init))
       = Some ValueError
   \<and> filter is_request
        (trace (snd (execute default_config net_superscript
                      (accumulate_all [(''discover'', 0, None), (''off'', 7, None)] Bridge_init))))
       = [Request ''>>Get Devices<<'']
   \<and> pending (snd (execute default_config net_superscript
                     (accumulate_all [(''discover'', 0, None), (''off'', 7, None)] Bridge_init)))
       = []"
proof -
  let ?b = "accumulate_all [(''discover'', 0, None), (''off'', 7, None)] Bridge_init"
  have pb: "pending ?b
     = [(0, \<lparr>off = False, on = True, level = None\<rparr>), (7, \<lparr>off = True, on = False, level = None\<rparr>)]"
    by (simp add: accumulate_all_def accumulate_def pending_get_def pending_set_def
        Bridge_init_def Pending_new_def)
  have b0: "?b\<lparr>pending := []\<rparr> = Bridge_init"
    unfolding accumulate_all_frame by (simp add: Bridge_init_def)
  have tr: "trace ?b = []"
    unfolding accumulate_all_trace by (simp add: Bridge_init_def)
  have fl: "do_discover (pending ?b)"
    unfolding pb by (simp add: do_discover_def)
  have dg: "py_isdigit [CHR 0xB2]" "py_int [CHR 0xB2] = None"
    by code_simp+
  have sc: "fst (send_command default_config net_superscript ''>>Get Devices<<'' Bridge_init)
              = ''>>Get Devices 3,'' @ [CHR 0xB2] @ ''<<''"
    by (simp add: send_command_def send_command_retry_def login_def connect_def close_def
        send_raw_def emit_def Bridge_init_def net_superscript_def default_config_def
        numeral_2_eq_2 str_int_literals)
  have gd: "fst (get_devices default_config net_superscript (?b\<lparr>pending := []\<rparr>)) = Inl ValueError"
    unfolding b0 by (simp only: get_devices_fst sc parse_devices_superscript)
  from execute_aborted [OF fl gd] pb dg tr show ?thesis by simp
qed

section \<open>Deduplication of published levels\<close>

lemma digit_cases: "d < 10 \<Longrightarrow> d \<in> {0, 1, 2, 3, 4, 5, 6, 7, 8, 9 :: nat}"
  by auto

lemma digit_char_value: "d < 10 \<Longrightarrow> (of_char (digit_char d) :: nat) = 48 + d"
  using digit_cases [of d] by (auto simp: digit_char_def)

lemma digits_val_snoc: "digits_val (xs @ [c]) = 10 * digits_val xs + (of_char c - 48)"
  by (simp add: digits_val_def)

lemma digits_val_str_nat: "digits_val (str_nat n) = n"
proof (induction n rule: str_nat.induct)
  case (1 n)
  show ?case
  proof (cases "n < 10")
    case True
    then show ?thesis by (simp add: str_nat_small digits_val_def digit_char_value)
  next
    case False
    then have e: "str_nat n = str_nat (n div 10) @ [digit_char (n mod 10)]"
      by (intro str_nat_big) simp
    have "digits_val (str_nat (n div 10)) = n div 10" using 1 False by simp
    then show ?thesis
      unfolding e digits_val_snoc by (simp add: digit_char_value)
  qed
qed

lemma str_nat_inj: "str_nat m = str_nat n \<Longrightarrow> m = n"
  using digits_val_str_nat by metis

lemma str_nat_no_minus: "CHR ''-'' \<notin> set (str_nat n)"
proof -
  have "CHR ''-'' \<notin> set ''0123456789''" by simp
  then show ?thesis using str_nat_chars [of n] by blast
qed

lemma str_int_inj: "str_int i = str_int j \<Longrightarrow> i = j"
proof -
  assume e: "str_int i = str_int j"
  have ne: "CHR ''-'' # xs \<noteq> str_nat n" for xs n
    using str_nat_no_minus [of n] by (metis list.set_intros(1))
  show "i = j"
  proof (cases "i < 0"; cases "j < 0")
    assume "i < 0" "j < 0"
    with e have "nat (- i) = nat (- j)" by (simp add: str_int_def str_nat_inj)
    with \<open>i < 0\<close> \<open>j < 0\<close> show ?thesis by simp
  next
    assume "i < 0" "\<not> j < 0"
    with e ne show ?thesis by (simp add: str_int_def)
  next
    assume "\<not> i < 0" "j < 0"
    with e ne [of "str_nat (nat (- j))" "nat i"] show ?thesis by (simp add: str_int_def)
  next
    assume "\<not> i < 0" "\<not> j < 0"
    with e have "nat i = nat j" by (simp add: str_int_def str_nat_inj)
    with \<open>\<not> i < 0\<close> \<open>\<not> j < 0\<close> show ?thesis by simp
  qed
qed

lemma str_int_no_slash: "CHR ''/'' \<notin> set (str_int i)"
proof -
  have a: "CHR ''/'' \<notin> set ''0123456789''" by simp
  have "CHR ''/'' \<notin> set (str_nat n)" for n using a str_nat_chars [of n] by blast
  then show ?thesis by (simp add: str_int_def)
qed

lemma uid_inj: "uid cfg d = uid cfg d' \<Longrightarrow> d = d'"
  by (simp add: uid_def str_int_inj)

lemma level_topic_inj:
  "t_b_state (topics cfg (uid cfg d)) = t_b_state (topics cfg (uid cfg d')) \<longleftrightarrow> d = d'"
  by (auto simp: topics_def uid_def dest: str_int_inj)

lemma state_topic_not_level:
  "t_state (topics cfg (uid cfg d)) \<noteq> t_b_state (topics cfg (uid cfg d'))"
proof
  assume "t_state (topics cfg (uid cfg d)) = t_b_state (topics cfg (uid cfg d'))"
  then have "str_int d @ ''/state'' = (str_int d' @ ''/brightness'') @ ''/state''"
    by (simp add: topics_def uid_def)
  then have "str_int d = str_int d' @ ''/brightness''"
    by (simp only: append_same_eq)
  then have "CHR ''/'' \<in> set (str_int d)" by simp
  then show False using str_int_no_slash by blast
qed

lemma disc_topic_not_level:
  "t_disc (topics cfg (uid cfg d)) \<noteq> t_b_state (topics cfg (uid cfg d'))"
proof
  assume "t_disc (topics cfg (uid cfg d)) = t_b_state (topics cfg (uid cfg d'))"
  then have "last (t_disc (topics cfg (uid cfg d))) = last (t_b_state (topics cfg (uid cfg d')))"
    by simp
  then show False by (simp add: topics_def)
qed

lemma avail_topic_not_level: "AVAIL_TOPIC cfg \<noteq> t_b_state (topics cfg (uid cfg d'))"
proof
  assume "AVAIL_TOPIC cfg = t_b_state (topics cfg (uid cfg d'))"
  then have "last (AVAIL_TOPIC cfg) = last (t_b_state (topics cfg (uid cfg d')))" by simp
  then show False by (simp add: topics_def AVAIL_TOPIC_def)
qed

lemma level_view_eq:
  "level_view cfg b' = level_view cfg b \<longleftrightarrow>
     last_level_pub b' = last_level_pub b
     \<and> (\<forall>did. level_pubs cfg did (trace b') = level_pubs cfg did (trace b))"
  by (auto simp: level_view_def fun_eq_iff)

lemma dedup_inv_view: "level_view cfg b' = level_view cfg b \<Longrightarrow> dedup_inv cfg b' = dedup_inv cfg b"
  by (simp add: level_view_eq dedup_inv_def)

lemma level_view_emit:
  "\<not> is_publish e \<Longrightarrow> level_view cfg (emit e b) = level_view cfg b"
  by (cases e) (simp_all add: level_view_eq emit_def level_pubs_def)

lemma level_view_send_command:
  "level_view cfg (snd (send_command cfg' net cmd b)) = level_view cfg b"
proof -
  have "last_level_pub (snd (send_command cfg' net cmd b)) = last_level_pub b"
    using send_command_same [of b cfg' net cmd] by (simp add: same_data_def)
  moreover have "filter (is_level_pub cfg did) (trace (snd (send_command cfg' net cmd b)))
                   = filter (is_level_pub cfg did) (trace b)" for did
    using send_command_filter [of "is_level_pub cfg did" cfg' net cmd b] by simp
  ultimately show ?thesis by (simp add: level_view_eq level_pubs_def)
qed

lemma level_view_queries:
  "level_view cfg (snd (get_name cfg' net did b)) = level_view cfg b"
  "level_view cfg (snd (get_level cfg' net did b)) = level_view cfg b"
  "level_view cfg (snd (get_devices cfg' net b)) = level_view cfg b"
  by (simp_all add: get_name_def get_level_def get_devices_def case_prod_beta
      level_view_send_command)

lemma level_view_pub_discovery:
  "level_view cfg (pub_discovery cfg did nm b) = level_view cfg b"
  by (simp add: level_view_eq pub_discovery_def pub_def emit_def level_pubs_def
      disc_topic_not_level)

lemma level_view_pub_avail: "level_view cfg (pub_avail cfg online b) = level_view cfg b"
  by (simp add: level_view_eq pub_avail_def pub_def emit_def level_pubs_def
      avail_topic_not_level)

lemma level_view_discover_one:
  "level_view cfg (discover_one cfg net did b) = level_view cfg b"
  by (simp add: discover_one_def case_prod_beta level_view_emit level_view_pub_discovery
      level_view_queries)

lemma level_view_discover_loop:
  "level_view cfg (discover_loop cfg net ids b) = level_view cfg b"
  by (induction ids arbitrary: b) (simp_all add: level_view_discover_one)

lemma level_view_known: "level_view cfg (b\<lparr>known := k\<rparr>) = level_view cfg b"
  "level_view cfg (b\<lparr>pending := p\<rparr>) = level_view cfg b"
  "level_view cfg (b\<lparr>cmd_q := q\<rparr>) = level_view cfg b"
  "level_view cfg (b\<lparr>last_level_ts := ts\<rparr>) = level_view cfg b"
  by (simp_all add: level_view_def)

lemma level_view_discover_phase:
  "level_view cfg (snd (discover_phase cfg net flag b)) = level_view cfg b"
proof (cases "get_devices cfg net b")
  case (Pair r b1)
  then have "level_view cfg b1 = level_view cfg b"
    using level_view_queries(3) [of cfg cfg net b] by simp
  with Pair show ?thesis
    by (cases r) (simp_all add: discover_phase_def level_view_discover_loop level_view_known)
qed

lemma level_pubs_snoc:
  "level_pubs cfg did (tr @ [e])
     = level_pubs cfg did tr @ (if is_level_pub cfg did e then [publish_payload e] else [])"
  by (simp add: level_pubs_def)

lemma pub_state_skip:
  "last_level_pub b (uid cfg did) = Some (max 0 (min BRIGHTNESS_SCALE lvl))
     \<Longrightarrow> pub_state cfg did lvl b = b"
  by (simp add: pub_state_def Let_def)

lemma pub_state_new:
  assumes "last_level_pub b (uid cfg did) \<noteq> Some (max 0 (min BRIGHTNESS_SCALE lvl))"
  shows "last_level_pub (pub_state cfg did lvl b)
           = (last_level_pub b)(uid cfg did \<mapsto> max 0 (min BRIGHTNESS_SCALE lvl))"
    and "level_pubs cfg d (trace (pub_state cfg did lvl b))
           = level_pubs cfg d (trace b)
             @ (if d = did then [Text (str_int (max 0 (min BRIGHTNESS_SCALE lvl)))] else [])"
  using assms state_topic_not_level [of cfg did d] level_topic_inj [of cfg did d]
  by (auto simp: pub_state_def Let_def pub_def emit_def level_pubs_def)

lemma pub_state_inv:
  assumes "dedup_inv cfg b"
  shows "dedup_inv cfg (pub_state cfg did lvl b)"
proof (cases "last_level_pub b (uid cfg did) = Some (max 0 (min BRIGHTNESS_SCALE lvl))")
  case True
  with assms show ?thesis by (simp add: pub_state_skip)
next
  case False
  let ?c = "max 0 (min BRIGHTNESS_SCALE lvl)"
  let ?b' = "pub_state cfg did lvl b"
  note n = pub_state_new [OF False]
  show ?thesis
    unfolding dedup_inv_def
  proof
    fix d
    obtain ls where ls: "level_pubs cfg d (trace b) = map (\<lambda>l. Text (str_int l)) ls"
      "distinct_adj ls" "ls \<noteq> [] \<longrightarrow> last_level_pub b (uid cfg d) = Some (last ls)"
      using assms unfolding dedup_inv_def by blast
    show "\<exists>ls. level_pubs cfg d (trace ?b') = map (\<lambda>l. Text (str_int l)) ls
                \<and> distinct_adj ls
                \<and> (ls \<noteq> [] \<longrightarrow> last_level_pub ?b' (uid cfg d) = Some (last ls))"
    proof (cases "d = did")
      case True
      have "ls \<noteq> [] \<longrightarrow> last ls \<noteq> ?c" using ls(3) False True by auto
      then have "distinct_adj (ls @ [?c])"
        using ls(2) by (auto simp: distinct_adj_append_iff)
      moreover have "level_pubs cfg d (trace ?b') = map (\<lambda>l. Text (str_int l)) (ls @ [?c])"
        using n(2) [of d] ls(1) True by simp
      moreover have "last_level_pub ?b' (uid cfg d) = Some (last (ls @ [?c]))"
        using n(1) True by simp
      ultimately show ?thesis by blast
    next
      case False
      then have "uid cfg d \<noteq> uid cfg did" using uid_inj by blast
      then have "last_level_pub ?b' (uid cfg d) = last_level_pub b (uid cfg d)"
        using n(1) by simp
      moreover have "level_pubs cfg d (trace ?b') = level_pubs cfg d (trace b)"
        using n(2) [of d] False by simp
      ultimately show ?thesis using ls by auto
    qed
  qed
qed

lemma refresh_one_inv: "dedup_inv cfg b \<Longrightarrow> dedup_inv cfg (refresh_one cfg net did b)"
proof -
  assume a: "dedup_inv cfg b"
  obtain r b1 where g: "get_level cfg net did b = (r, b1)" by (cases "get_level cfg net did b")
  then have "level_view cfg b1 = level_view cfg b"
    using level_view_queries(2) [of cfg cfg net did b] by simp
  then have i: "dedup_inv cfg b1" using a dedup_inv_view by blast
  show ?thesis
    using g i pub_state_inv [OF i]
    by (cases r) (simp_all add: refresh_one_def dedup_inv_view [OF level_view_emit])
qed

lemma refresh_loop_inv: "dedup_inv cfg b \<Longrightarrow> dedup_inv cfg (refresh_loop cfg net ids b)"
  by (induction ids arbitrary: b) (simp_all add: refresh_one_inv)

lemma device_one_inv: "dedup_inv cfg b \<Longrightarrow> dedup_inv cfg (device_one cfg net did p b)"
proof (cases "did \<noteq> 0 \<and> has_directive p")
  case True
  assume a: "dedup_inv cfg b"
  obtain resp b1 where sc: "send_command cfg net (device_cmd did p) b = (resp, b1)"
    by (cases "send_command cfg net (device_cmd did p) b")
  then have "level_view cfg b1 = level_view cfg b"
    using level_view_send_command [of cfg cfg net "device_cmd did p" b] by simp
  then have i: "dedup_inv cfg b1" using a dedup_inv_view by blast
  show ?thesis
    using True sc i pub_state_inv [OF i]
    by (simp add: device_one_unified device_op_send dedup_inv_view [OF level_view_emit])
next
  case False
  assume "dedup_inv cfg b"
  with False show ?thesis using device_one_idle [of did p cfg net b] by auto
qed

lemma device_loop_inv: "dedup_inv cfg b \<Longrightarrow> dedup_inv cfg (device_loop cfg net items b)"
  by (induction items arbitrary: b) (auto simp: device_one_inv)

lemma execute_inv:
  assumes "dedup_inv cfg b"
  shows "dedup_inv cfg (snd (execute cfg net b))"
proof -
  let ?b0 = "b\<lparr>pending := []\<rparr>"
  obtain e b1 where d: "discover_phase cfg net (do_discover (pending b)) ?b0 = (e, b1)"
    by (cases "discover_phase cfg net (do_discover (pending b)) ?b0")
  then have "level_view cfg b1 = level_view cfg b"
    using level_view_discover_phase [of cfg net "do_discover (pending b)" ?b0]
    by (simp add: level_view_known)
  then have i: "dedup_inv cfg b1" using assms dedup_inv_view by blast
  then have "dedup_inv cfg (refresh_phase cfg net (do_refresh (pending b)) b1)"
    by (simp add: refresh_phase_def refresh_loop_inv)
  then have "dedup_inv cfg (device_loop cfg net (pending b)
                            (refresh_phase cfg net (do_refresh (pending b)) b1))"
    by (rule device_loop_inv)
  with d i show ?thesis by (cases e) (simp_all add: execute_def Let_def)
qed

lemma level_view_accumulate: "level_view cfg (accumulate kind did val b) = level_view cfg b"
  by (simp add: accumulate_def pending_set_def Let_def level_view_def)

lemma level_view_accumulate_all: "level_view cfg (accumulate_all items b) = level_view cfg b"
proof -
  have "level_view cfg ((accumulate_all items b)\<lparr>pending := []\<rparr>) = level_view cfg (b\<lparr>pending := []\<rparr>)"
    by (simp only: accumulate_all_frame)
  then show ?thesis by (simp only: level_view_known)
qed

lemma level_view_drain: "level_view cfg (drain b) = level_view cfg b"
  by (simp add: drain_def level_view_accumulate_all level_view_known)

lemma level_view_put: "level_view cfg (put item b) = level_view cfg b"
  by (simp add: put_def level_view_known)

lemma level_view_on_message:
  "level_view cfg (on_message cfg' fl now topic payload0 b) = level_view cfg b"
  by (simp add: on_message_def Let_def level_view_put level_view_known
      split: option.splits)

lemma dedup_inv_init: "dedup_inv cfg Bridge_init"
  unfolding dedup_inv_def
proof
  fix did
  have "level_pubs cfg did (trace Bridge_init) = map (\<lambda>l. Text (str_int l)) []"
    by (simp add: level_pubs_def Bridge_init_def)
  then show "\<exists>ls. level_pubs cfg did (trace Bridge_init) = map (\<lambda>l. Text (str_int l)) ls
                \<and> distinct_adj ls
                \<and> (ls \<noteq> [] \<longrightarrow> last_level_pub Bridge_init (uid cfg did) = Some (last ls))"
    by (intro exI [of _ "[]"]) simp
qed

lemma reachable_inv: "reachable cfg b \<Longrightarrow> dedup_inv cfg b"
proof (induction rule: reachable.induct)
  case initial
  show ?case by (rule dedup_inv_init)
next
  case (queued b item)
  then show ?case using dedup_inv_view [OF level_view_put] by blast
next
  case (message b float_of now topic payload0)
  then show ?case using dedup_inv_view [OF level_view_on_message] by blast
next
  case (merged b kind did val)
  then show ?case using dedup_inv_view [OF level_view_accumulate] by blast
next
  case (drained b)
  then show ?case using dedup_inv_view [OF level_view_drain] by blast
next
  case (flushed b net)
  then show ?case by (simp add: execute_inv)
next
  case (published b did lvl)
  then show ?case by (simp add: pub_state_inv)
next
  case (announced b did name_str)
  then show ?case using dedup_inv_view [OF level_view_pub_discovery] by blast
next
  case (available b online)
  then show ?case using dedup_inv_view [OF level_view_pub_avail] by blast
qed

lemma text_level_inj: "inj (\<lambda>l. Text (str_int l))"
  by (rule injI) (simp add: str_int_inj)

text \<open>
  C5. In every state the bridge reaches, the level publications of a device are the texts
  of a sequence of levels in which no two neighbours are equal, and the map of last
  published levels holds the last of them. A call of \<open>pub_state\<close> whose clamped level is
  the one the map holds for the device changes nothing; any other call appends exactly its
  clamped level. Distinct levels have distinct texts.
\<close>

theorem published_levels_alternate:
  assumes "reachable cfg b"
  shows "(\<exists>ls. level_pubs cfg did (trace b) = map (\<lambda>l. Text (str_int l)) ls
              \<and> distinct_adj ls
              \<and> (ls \<noteq> [] \<longrightarrow> last_level_pub b (uid cfg did) = Some (last ls)))
       \<and> distinct_adj (level_pubs cfg did (trace b))
       \<and> (last_level_pub b (uid cfg did) = Some (max 0 (min BRIGHTNESS_SCALE lvl))
            \<longrightarrow> pub_state cfg did lvl b = b)
       \<and> (last_level_pub b (uid cfg did) \<noteq> Some (max 0 (min BRIGHTNESS_SCALE lvl))
            \<longrightarrow> level_pubs cfg did (trace (pub_state cfg did lvl b))
                = level_pubs cfg did (trace b)
                  @ [Text (str_int (max 0 (min BRIGHTNESS_SCALE lvl)))])
       \<and> (str_int i = str_int j \<longrightarrow> i = j)"
proof -
  obtain ls where ls: "level_pubs cfg did (trace b) = map (\<lambda>l. Text (str_int l)) ls"
    "distinct_adj ls" "ls \<noteq> [] \<longrightarrow> last_level_pub b (uid cfg did) = Some (last ls)"
    using reachable_inv [OF assms] unfolding dedup_inv_def by blast
  have "distinct_adj (level_pubs cfg did (trace b))"
    unfolding ls(1) using ls(2) text_level_inj by (simp add: distinct_adj_map_iff inj_on_def)
  moreover have "last_level_pub b (uid cfg did) \<noteq> Some (max 0 (min BRIGHTNESS_SCALE lvl))
            \<longrightarrow> level_pubs cfg did (trace (pub_state cfg did lvl b))
                = level_pubs cfg did (trace b)
                  @ [Text (str_int (max 0 (min BRIGHTNESS_SCALE lvl)))]"
    using pub_state_new(2) [of b cfg did lvl did] by simp
  ultimately show ?thesis using ls pub_state_skip str_int_inj by blast
qed

theorem published_levels_alternate_witness:
  "reachable default_config
     (pub_state default_config 3 70
       (pub_state default_config 3 50 (pub_state default_config 3 50 Bridge_init)))
   \<and> level_pubs default_config 3
        (trace (pub_state default_config 3 70
                 (pub_state default_config 3 50 (pub_state default_config 3 50 Bridge_init))))
       = [Text ''50'', Text ''70'']
   \<and> distinct_adj [Text ''50'', Text ''70'']
   \<and> pub_state default_config 3 70
        (pub_state default_config 3 70
          (pub_state default_config 3 50 (pub_state default_config 3 50 Bridge_init)))
       = pub_state default_config 3 70
           (pub_state default_config 3 50 (pub_state default_config 3 50 Bridge_init))
   \<and> level_pubs default_config 3
        (trace (pub_state default_config 3 20
                 (pub_state default_config 3 70
                   (pub_state default_config 3 50 (pub_state default_config 3 50 Bridge_init)))))
       = [Text ''50'', Text ''70'', Text ''20'']"
proof -
  let ?B = "pub_state default_config 3 70
              (pub_state default_config 3 50 (pub_state default_config 3 50 Bridge_init))"
  have r: "reachable default_config ?B"
    by (intro reachable.published reachable.initial)
  have s: "str_int 70 = ''70''" "str_int 20 = ''20''"
    by (simp_all add: str_int_eval)
  have u: "uid default_config 3 = ''zensebridge_3''"
    by (simp add: uid_def default_config_def str_int_literals)
  have t: "t_b_state (topics default_config ''zensebridge_3'')
             = ''homeassistant/zense_bridge/zensebridge_3/brightness/state''"
    "t_state (topics default_config ''zensebridge_3'')
             = ''homeassistant/zense_bridge/zensebridge_3/state''"
    by (simp_all add: topics_def default_config_def)
  have m: "last_level_pub ?B ''zensebridge_3'' = Some 70"
    by (simp add: pub_state_def Let_def pub_def emit_def u BRIGHTNESS_SCALE_def Bridge_init_def)
  have p: "level_pubs default_config 3 (trace ?B) = [Text ''50'', Text ''70'']"
    by (simp add: pub_state_def Let_def pub_def emit_def u t s str_int_literals
        BRIGHTNESS_SCALE_def Bridge_init_def level_pubs_def)
  note a = published_levels_alternate [OF r, where did = 3 and lvl = 70 and i = 50 and j = 50]
  note b = published_levels_alternate [OF r, where did = 3 and lvl = 20 and i = 50 and j = 50]
  have c: "max 0 (min BRIGHTNESS_SCALE 70) = (70 :: int)" "max 0 (min BRIGHTNESS_SCALE 20) = (20 :: int)"
    by (simp_all add: BRIGHTNESS_SCALE_def)
  from a have d: "distinct_adj (level_pubs default_config 3 (trace ?B))" by blast
  from a m have k: "pub_state default_config 3 70 ?B = ?B" by (simp add: u c)
  from b m have n: "level_pubs default_config 3 (trace (pub_state default_config 3 20 ?B))
                      = level_pubs default_config 3 (trace ?B) @ [Text (str_int 20)]"
    by (simp add: u c)
  show ?thesis
    using r d k n unfolding p s by simp
qed

end
